theory Spec2Isabelle
  imports Main "HOL-Library.AList"
begin

section \<open>The in-memory social store (class MemStorage)\<close>

text \<open>
  The store keeps every collection in a JavaScript \<open>Map\<close> from numeric ids to entities.
  A \<open>Map\<close> iterates in insertion order, \<open>set\<close> on a present key replaces the value where
  it stands, \<open>set\<close> on a new key appends, and \<open>delete\<close> removes the key. That is an
  association list: \<open>Array.from(m.values())\<close> is the list of second components.
  Ids and timestamps (\<open>Date.getTime()\<close>) are integers; the clock read by \<open>new Date()\<close>
  is a parameter \<open>now\<close> of every creating operation.
\<close>

type_synonym 'v jsmap = "(int \<times> 'v) list"

definition map_get :: "'v jsmap \<Rightarrow> int \<Rightarrow> 'v option" where
  "map_get m k = map_of m k"

definition map_set :: "int \<Rightarrow> 'v \<Rightarrow> 'v jsmap \<Rightarrow> 'v jsmap" where
  "map_set k v m = AList.update k v m"

definition map_delete :: "int \<Rightarrow> 'v jsmap \<Rightarrow> 'v jsmap" where
  "map_delete k m = AList.delete k m"

definition map_values :: "'v jsmap \<Rightarrow> 'v list" where
  "map_values m = map snd m"

text \<open>
  \<open>Array.prototype.sort(cmp)\<close> is a stable sort: elements that compare equal keep their
  relative order. Insertion from the right end, placing an element in front of the first
  one it does not exceed, is such a sort.
\<close>

fun insert_by :: "('a \<Rightarrow> 'a \<Rightarrow> int) \<Rightarrow> 'a \<Rightarrow> 'a list \<Rightarrow> 'a list" where
  "insert_by cmp x [] = [x]"
| "insert_by cmp x (y # ys) = (if cmp x y \<le> 0 then x # y # ys else y # insert_by cmp x ys)"

definition js_sort :: "('a \<Rightarrow> 'a \<Rightarrow> int) \<Rightarrow> 'a list \<Rightarrow> 'a list" where
  "js_sort cmp xs = foldr (insert_by cmp) xs []"

subsection \<open>Entities\<close>

text \<open>
  The entity types come from the shared schema. A nullable column is an \<open>option\<close>
  (\<open>None\<close> is \<open>null\<close>); the status of a friend edge is a free text column.
\<close>

record user =
  user_id :: int
  user_username :: string
  user_password :: string
  user_name :: string
  user_bio :: "string option"
  user_profileImage :: "string option"
  user_coverImage :: "string option"
  user_coverColor :: "string option"
  user_work :: "string option"
  user_education :: "string option"
  user_currentCity :: "string option"
  user_hometown :: "string option"
  user_createdAt :: int
  user_lastNameChange :: "int option"
  user_isBanned :: bool

text \<open>\<open>InsertUser\<close>: what \<open>createUser\<close> spreads into the new record.\<close>

record insertUser =
  iu_username :: string
  iu_password :: string
  iu_name :: string
  iu_bio :: "string option"
  iu_profileImage :: "string option"
  iu_coverImage :: "string option"
  iu_coverColor :: "string option"
  iu_work :: "string option"
  iu_education :: "string option"
  iu_currentCity :: "string option"
  iu_hometown :: "string option"
  iu_lastNameChange :: "int option"

text \<open>
  \<open>Partial<User>\<close>: every field may be left out. The outer \<open>None\<close> is \<open>undefined\<close>
  (field omitted); for a nullable field \<open>Some None\<close> is an explicit \<open>null\<close>.
\<close>

record userUpdates =
  upd_id :: "int option"
  upd_username :: "string option"
  upd_password :: "string option"
  upd_name :: "string option"
  upd_bio :: "string option option"
  upd_profileImage :: "string option option"
  upd_coverImage :: "string option option"
  upd_coverColor :: "string option option"
  upd_work :: "string option option"
  upd_education :: "string option option"
  upd_currentCity :: "string option option"
  upd_hometown :: "string option option"
  upd_createdAt :: "int option"
  upd_lastNameChange :: "int option option"
  upd_isBanned :: "bool option"

record post =
  post_id :: int
  post_userId :: int
  post_content :: string
  post_image :: "string option"
  post_createdAt :: int

record insertPost =
  ip_userId :: int
  ip_content :: string
  ip_image :: "string option"

record like =
  like_id :: int
  like_userId :: int
  like_postId :: int
  like_createdAt :: int

record insertLike =
  il_userId :: int
  il_postId :: int

record comment =
  comment_id :: int
  comment_userId :: int
  comment_postId :: int
  comment_content :: string
  comment_createdAt :: int

record insertComment =
  ic_userId :: int
  ic_postId :: int
  ic_content :: string

record friend =
  friend_id :: int
  friend_userId :: int
  friend_friendId :: int
  friend_status :: string
  friend_createdAt :: int

record insertFriend =
  if_userId :: int
  if_friendId :: int
  if_status :: "string option"

record story =
  story_id :: int
  story_userId :: int
  story_media :: string
  story_createdAt :: int

subsection \<open>Composed views\<close>

text \<open>
  An enriched view spreads the entity and adds joined fields. \<open>author!\<close> is the result
  of \<open>getUser\<close>, which is \<open>undefined\<close> for a missing user: an \<open>option\<close>.
\<close>

record commentWithAuthor =
  cwa_comment :: comment
  cwa_author :: "user option"

record friendWithUser =
  fwu_friend :: friend
  fwu_user :: "user option"

text \<open>The view built by \<open>getPostsByUser\<close>.\<close>

record profilePost =
  pp_post :: post
  pp_author :: "user option"
  pp_liked :: bool
  pp_likes :: nat
  pp_comments :: "commentWithAuthor list"
  pp_commentsCount :: nat

text \<open>The view built by \<open>getPostsForFeed\<close>.\<close>

record feedPost =
  fp_post :: post
  fp_author :: "user option"
  fp_likes :: nat
  fp_liked :: bool
  fp_comments :: "commentWithAuthor list"

text \<open>The view built by \<open>getSavedPosts\<close>.\<close>

record savedPost =
  sp_post :: post
  sp_author :: "user option"
  sp_saved :: bool
  sp_comments :: "commentWithAuthor list"
  sp_likes :: nat

subsection \<open>The store\<close>

record store =
  users :: "user jsmap"
  posts :: "post jsmap"
  likes :: "like jsmap"
  comments :: "comment jsmap"
  friends :: "friend jsmap"
  savedPosts :: "int list jsmap"
  stories :: "story jsmap"
  currentUserId :: int
  currentPostId :: int
  currentLikeId :: int
  currentCommentId :: int
  currentFriendId :: int
  currentStoryId :: int

text \<open>The constructor.\<close>

definition init :: store where
  "init = \<lparr> users = [], posts = [], likes = [], comments = [], friends = [],
            savedPosts = [], stories = [],
            currentUserId = 1, currentPostId = 1, currentLikeId = 1,
            currentCommentId = 1, currentFriendId = 1, currentStoryId = 1 \<rparr>"

subsection \<open>User methods\<close>

definition getUser :: "store \<Rightarrow> int \<Rightarrow> user option" where
  "getUser s i = map_get (users s) i"

definition createUser :: "store \<Rightarrow> insertUser \<Rightarrow> int \<Rightarrow> user \<times> store" where
  "createUser s ins now =
     (let i = currentUserId s;
          u = \<lparr> user_id = i, user_username = iu_username ins, user_password = iu_password ins,
                user_name = iu_name ins, user_bio = iu_bio ins,
                user_profileImage = iu_profileImage ins, user_coverImage = iu_coverImage ins,
                user_coverColor = iu_coverColor ins, user_work = iu_work ins,
                user_education = iu_education ins, user_currentCity = iu_currentCity ins,
                user_hometown = iu_hometown ins, user_createdAt = now,
                user_lastNameChange = iu_lastNameChange ins, user_isBanned = False \<rparr>
      in (u, s\<lparr> currentUserId := i + 1, users := map_set i u (users s) \<rparr>))"

text \<open>\<open>updates.f !== undefined ? updates.f : user.f\<close>\<close>

definition pick :: "'a option \<Rightarrow> 'a \<Rightarrow> 'a" where
  "pick upd cur = (case upd of Some v \<Rightarrow> v | None \<Rightarrow> cur)"

definition updateUser :: "store \<Rightarrow> int \<Rightarrow> userUpdates \<Rightarrow> user option \<times> store" where
  "updateUser s i updates =
     (case getUser s i of
        None \<Rightarrow> (None, s)
      | Some u \<Rightarrow>
          (let updatedUser = u\<lparr>
                 user_name := pick (upd_name updates) (user_name u),
                 user_bio := pick (upd_bio updates) (user_bio u),
                 user_profileImage := pick (upd_profileImage updates) (user_profileImage u),
                 user_work := pick (upd_work updates) (user_work u),
                 user_education := pick (upd_education updates) (user_education u),
                 user_currentCity := pick (upd_currentCity updates) (user_currentCity u),
                 user_hometown := pick (upd_hometown updates) (user_hometown u),
                 user_coverColor := pick (upd_coverColor updates) (user_coverColor u),
                 user_coverImage := pick (upd_coverImage updates) (user_coverImage u) \<rparr>
           in (Some updatedUser, s\<lparr> users := map_set i updatedUser (users s) \<rparr>)))"

definition toggleUserBanStatus :: "store \<Rightarrow> int \<Rightarrow> user option \<times> store" where
  "toggleUserBanStatus s i =
     (case getUser s i of
        None \<Rightarrow> (None, s)
      | Some u \<Rightarrow>
          (let updatedUser = u\<lparr> user_isBanned := \<not> user_isBanned u \<rparr>
           in (Some updatedUser, s\<lparr> users := map_set i updatedUser (users s) \<rparr>)))"

subsection \<open>Likes and comments\<close>

definition createLike :: "store \<Rightarrow> insertLike \<Rightarrow> int \<Rightarrow> like \<times> store" where
  "createLike s ins now =
     (let i = currentLikeId s;
          l = \<lparr> like_id = i, like_userId = il_userId ins, like_postId = il_postId ins,
                like_createdAt = now \<rparr>
      in (l, s\<lparr> currentLikeId := i + 1, likes := map_set i l (likes s) \<rparr>))"

definition getLike :: "store \<Rightarrow> int \<Rightarrow> int \<Rightarrow> like option" where
  "getLike s userId postId =
     find (\<lambda>l. like_userId l = userId \<and> like_postId l = postId) (map_values (likes s))"

definition removeLike :: "store \<Rightarrow> int \<Rightarrow> int \<Rightarrow> store" where
  "removeLike s userId postId =
     (case getLike s userId postId of
        Some l \<Rightarrow> s\<lparr> likes := map_delete (like_id l) (likes s) \<rparr>
      | None \<Rightarrow> s)"

definition getLikesByPost :: "store \<Rightarrow> int \<Rightarrow> like list" where
  "getLikesByPost s postId = filter (\<lambda>l. like_postId l = postId) (map_values (likes s))"

definition createComment :: "store \<Rightarrow> insertComment \<Rightarrow> int \<Rightarrow> comment \<times> store" where
  "createComment s ins now =
     (let i = currentCommentId s;
          c = \<lparr> comment_id = i, comment_userId = ic_userId ins, comment_postId = ic_postId ins,
                comment_content = ic_content ins, comment_createdAt = now \<rparr>
      in (c, s\<lparr> currentCommentId := i + 1, comments := map_set i c (comments s) \<rparr>))"

definition getCommentsByPost :: "store \<Rightarrow> int \<Rightarrow> comment list" where
  "getCommentsByPost s postId =
     js_sort (\<lambda>a b. comment_createdAt a - comment_createdAt b)
       (filter (\<lambda>c. comment_postId c = postId) (map_values (comments s)))"

text \<open>The join every enriched post view performs on each comment.\<close>

definition commentsWithAuthor :: "store \<Rightarrow> comment list \<Rightarrow> commentWithAuthor list" where
  "commentsWithAuthor s cs =
     map (\<lambda>c. \<lparr> cwa_comment = c, cwa_author = getUser s (comment_userId c) \<rparr>) cs"

subsection \<open>Post methods\<close>

definition createPost :: "store \<Rightarrow> insertPost \<Rightarrow> int \<Rightarrow> post \<times> store" where
  "createPost s ins now =
     (let i = currentPostId s;
          p = \<lparr> post_id = i, post_userId = ip_userId ins, post_content = ip_content ins,
                post_image = ip_image ins, post_createdAt = now \<rparr>
      in (p, s\<lparr> currentPostId := i + 1, posts := map_set i p (posts s) \<rparr>))"

definition getPost :: "store \<Rightarrow> int \<Rightarrow> post option" where
  "getPost s i = map_get (posts s) i"

text \<open>
  \<open>{...author!, password: undefined}\<close>: the author without the password, written here as
  the author with the empty password.
\<close>

definition withoutPassword :: "user option \<Rightarrow> user option" where
  "withoutPassword a = map_option (\<lambda>u. u\<lparr> user_password := [] \<rparr>) a"

definition getPostsByUser :: "store \<Rightarrow> int \<Rightarrow> profilePost list" where
  "getPostsByUser s userId =
     (let userPosts = js_sort (\<lambda>a b. post_createdAt b - post_createdAt a)
                        (filter (\<lambda>p. post_userId p = userId) (map_values (posts s)))
      in map (\<lambda>p.
           let author = getUser s (post_userId p);
               postLikes = getLikesByPost s (post_id p);
               postComments = getCommentsByPost s (post_id p);
               userLiked = list_ex (\<lambda>l. like_userId l = userId) postLikes
           in \<lparr> pp_post = p, pp_author = withoutPassword author, pp_liked = userLiked,
                pp_likes = length postLikes,
                pp_comments = map (\<lambda>c. \<lparr> cwa_comment = c,
                                 cwa_author = withoutPassword (getUser s (comment_userId c)) \<rparr>)
                               postComments,
                pp_commentsCount = length postComments \<rparr>) userPosts)"

definition updatePost :: "store \<Rightarrow> int \<Rightarrow> string \<Rightarrow> post option \<times> store" where
  "updatePost s i content =
     (case getPost s i of
        None \<Rightarrow> (None, s)
      | Some p \<Rightarrow>
          (let updatedPost = p\<lparr> post_content := content \<rparr>
           in (Some updatedPost, s\<lparr> posts := map_set i updatedPost (posts s) \<rparr>)))"

text \<open>
  The two deletion loops of \<open>deletePost\<close> run over a snapshot of the values and delete
  by the \<open>id\<close> field of each matching value.
\<close>

definition deletePost :: "store \<Rightarrow> int \<Rightarrow> bool \<times> store" where
  "deletePost s i =
     (case getPost s i of
        None \<Rightarrow> (False, s)
      | Some p \<Rightarrow>
          (let s1 = s\<lparr> posts := map_delete i (posts s) \<rparr>;
               allLikes = map_values (likes s1);
               s2 = s1\<lparr> likes := fold (\<lambda>l m. if like_postId l = i
                                               then map_delete (like_id l) m else m)
                                      allLikes (likes s1) \<rparr>;
               allComments = map_values (comments s2);
               s3 = s2\<lparr> comments := fold (\<lambda>c m. if comment_postId c = i
                                                  then map_delete (comment_id c) m else m)
                                         allComments (comments s2) \<rparr>
           in (True, s3)))"

subsection \<open>Friend methods\<close>

definition createFriendRequest :: "store \<Rightarrow> insertFriend \<Rightarrow> int \<Rightarrow> friend \<times> store" where
  "createFriendRequest s ins now =
     (let i = currentFriendId s;
          f = \<lparr> friend_id = i, friend_userId = if_userId ins, friend_friendId = if_friendId ins,
                friend_status = (case if_status ins of Some st \<Rightarrow> st | None \<Rightarrow> ''pending''),
                friend_createdAt = now \<rparr>
      in (f, s\<lparr> currentFriendId := i + 1, friends := map_set i f (friends s) \<rparr>))"

definition acceptFriendRequest :: "store \<Rightarrow> int \<Rightarrow> friend option \<times> store" where
  "acceptFriendRequest s i =
     (case map_get (friends s) i of
        Some f \<Rightarrow>
          (let updatedFriend = f\<lparr> friend_status := ''accepted'' \<rparr>
           in (Some updatedFriend, s\<lparr> friends := map_set i updatedFriend (friends s) \<rparr>))
      | None \<Rightarrow> (None, s))"

definition rejectFriendRequest :: "store \<Rightarrow> int \<Rightarrow> friend option \<times> store" where
  "rejectFriendRequest s i =
     (case map_get (friends s) i of
        Some f \<Rightarrow>
          (let updatedFriend = f\<lparr> friend_status := ''rejected'' \<rparr>
           in (Some updatedFriend, s\<lparr> friends := map_set i updatedFriend (friends s) \<rparr>))
      | None \<Rightarrow> (None, s))"

definition getFriendRequest :: "store \<Rightarrow> int \<Rightarrow> int \<Rightarrow> friend option" where
  "getFriendRequest s userId friendId =
     find (\<lambda>f. (friend_userId f = userId \<and> friend_friendId f = friendId) \<or>
               (friend_userId f = friendId \<and> friend_friendId f = userId))
          (map_values (friends s))"

definition getFriends :: "store \<Rightarrow> int \<Rightarrow> friendWithUser list" where
  "getFriends s userId =
     (let friendConnections =
            filter (\<lambda>f. friend_status f = ''accepted'' \<and>
                        (friend_userId f = userId \<or> friend_friendId f = userId))
                   (map_values (friends s))
      in map (\<lambda>connection.
           let friendUserId = (if friend_userId connection = userId
                               then friend_friendId connection else friend_userId connection)
           in \<lparr> fwu_friend = connection, fwu_user = getUser s friendUserId \<rparr>)
         friendConnections)"

definition getFriendSuggestions :: "store \<Rightarrow> int \<Rightarrow> user list" where
  "getFriendSuggestions s userId =
     (let allUsers = map_values (users s);
          friendsL = getFriends s userId;
          friendIds = set (map (\<lambda>f. if friend_friendId (fwu_friend f) = userId
                                     then friend_userId (fwu_friend f)
                                     else friend_friendId (fwu_friend f)) friendsL)
                      \<union> {userId};
          suggestions = filter (\<lambda>u. user_id u \<notin> friendIds) allUsers
      in take 5 suggestions)"

subsection \<open>Feed\<close>

definition getPostsForFeed :: "store \<Rightarrow> int \<Rightarrow> feedPost list" where
  "getPostsForFeed s userId =
     (let userFriends = getFriends s userId;
          friendIds = map (\<lambda>f. if friend_userId (fwu_friend f) = userId
                                then friend_friendId (fwu_friend f)
                                else friend_userId (fwu_friend f)) userFriends @ [userId];
          feedPosts = js_sort (\<lambda>a b. post_createdAt b - post_createdAt a)
                        (filter (\<lambda>p. post_userId p \<in> set friendIds) (map_values (posts s)))
      in map (\<lambda>p.
           let author = getUser s (post_userId p);
               postLikes = getLikesByPost s (post_id p);
               postComments = getCommentsByPost s (post_id p);
               userLike = getLike s userId (post_id p)
           in \<lparr> fp_post = p, fp_author = author, fp_likes = length postLikes,
                fp_liked = (userLike \<noteq> None),
                fp_comments = commentsWithAuthor s postComments \<rparr>) feedPosts)"

subsection \<open>User deletion\<close>

definition deleteUser :: "store \<Rightarrow> int \<Rightarrow> bool \<times> store" where
  "deleteUser s i =
     (case getUser s i of
        None \<Rightarrow> (False, s)
      | Some u \<Rightarrow>
          (let s1 = s\<lparr> users := map_delete i (users s) \<rparr>;
               userPosts = getPostsByUser s1 i;
               s2 = fold (\<lambda>p st. snd (deletePost st (post_id (pp_post p)))) userPosts s1;
               allLikes = map_values (likes s2);
               s3 = s2\<lparr> likes := fold (\<lambda>l m. if like_userId l = i
                                               then map_delete (like_id l) m else m)
                                      allLikes (likes s2) \<rparr>;
               allComments = map_values (comments s3);
               s4 = s3\<lparr> comments := fold (\<lambda>c m. if comment_userId c = i
                                                  then map_delete (comment_id c) m else m)
                                         allComments (comments s3) \<rparr>;
               allFriends = map_values (friends s4);
               s5 = s4\<lparr> friends := fold (\<lambda>f m. if friend_userId f = i \<or> friend_friendId f = i
                                                 then map_delete (friend_id f) m else m)
                                        allFriends (friends s4) \<rparr>
           in (True, s5)))"

subsection \<open>Saved posts and stories\<close>

text \<open>\<open>this.savedPosts.get(userId) || []\<close>: an array is truthy even when empty.\<close>

definition savePost :: "store \<Rightarrow> int \<Rightarrow> int \<Rightarrow> store" where
  "savePost s userId postId =
     (let saved = (case map_get (savedPosts s) userId of Some l \<Rightarrow> l | None \<Rightarrow> [])
      in if postId \<notin> set saved
         then s\<lparr> savedPosts := map_set userId (saved @ [postId]) (savedPosts s) \<rparr>
         else s)"

definition unsavePost :: "store \<Rightarrow> int \<Rightarrow> int \<Rightarrow> store" where
  "unsavePost s userId postId =
     (case map_get (savedPosts s) userId of
        Some saved \<Rightarrow>
          s\<lparr> savedPosts := map_set userId (filter (\<lambda>i. i \<noteq> postId) saved) (savedPosts s) \<rparr>
      | None \<Rightarrow> s)"

definition createStory :: "store \<Rightarrow> int \<Rightarrow> string \<Rightarrow> int \<Rightarrow> story \<times> store" where
  "createStory s userId media now =
     (let i = currentStoryId s;
          st = \<lparr> story_id = i, story_userId = userId, story_media = media,
                 story_createdAt = now \<rparr>
      in (st, s\<lparr> currentStoryId := i + 1, stories := map_set i st (stories s) \<rparr>))"

text \<open>
  \<open>getSavedPosts\<close> maps every saved id to its enriched post, or to \<open>null\<close> when
  \<open>getPost\<close> finds nothing, and then drops the \<open>null\<close>s.
\<close>

definition getSavedPosts :: "store \<Rightarrow> int \<Rightarrow> savedPost list" where
  "getSavedPosts s userId =
     (let savedPostIds = (case map_get (savedPosts s) userId of Some l \<Rightarrow> l | None \<Rightarrow> []);
          ps = map (\<lambda>postId.
                 case getPost s postId of
                   None \<Rightarrow> None
                 | Some p \<Rightarrow>
                     (let author = getUser s (post_userId p);
                          postComments = getCommentsByPost s postId
                      in Some \<lparr> sp_post = p, sp_author = author, sp_saved = True,
                                sp_comments = commentsWithAuthor s postComments,
                                sp_likes = length (getLikesByPost s postId) \<rparr>))
               savedPostIds
      in map the (filter (\<lambda>p. p \<noteq> None) ps))"

subsection \<open>Sequences of store operations\<close>

text \<open>
  The mutating methods of the class, as one datatype of calls; creating calls carry the
  clock value they read. \<open>step\<close> performs one call and keeps the new store.
\<close>

datatype op =
    CreateUser insertUser int
  | UpdateUser int userUpdates
  | DeleteUser int
  | ToggleUserBanStatus int
  | CreatePost insertPost int
  | UpdatePost int string
  | DeletePost int
  | CreateLike insertLike int
  | RemoveLike int int
  | CreateComment insertComment int
  | CreateFriendRequest insertFriend int
  | AcceptFriendRequest int
  | RejectFriendRequest int
  | SavePost int int
  | UnsavePost int int
  | CreateStory int string int

fun step :: "store \<Rightarrow> op \<Rightarrow> store" where
  "step s (CreateUser ins now) = snd (createUser s ins now)"
| "step s (UpdateUser i updates) = snd (updateUser s i updates)"
| "step s (DeleteUser i) = snd (deleteUser s i)"
| "step s (ToggleUserBanStatus i) = snd (toggleUserBanStatus s i)"
| "step s (CreatePost ins now) = snd (createPost s ins now)"
| "step s (UpdatePost i content) = snd (updatePost s i content)"
| "step s (DeletePost i) = snd (deletePost s i)"
| "step s (CreateLike ins now) = snd (createLike s ins now)"
| "step s (RemoveLike userId postId) = removeLike s userId postId"
| "step s (CreateComment ins now) = snd (createComment s ins now)"
| "step s (CreateFriendRequest ins now) = snd (createFriendRequest s ins now)"
| "step s (AcceptFriendRequest i) = snd (acceptFriendRequest s i)"
| "step s (RejectFriendRequest i) = snd (rejectFriendRequest s i)"
| "step s (SavePost userId postId) = savePost s userId postId"
| "step s (UnsavePost userId postId) = unsavePost s userId postId"
| "step s (CreateStory userId media now) = snd (createStory s userId media now)"

definition run :: "store \<Rightarrow> op list \<Rightarrow> store" where
  "run s ops = foldl step s ops"

text \<open>The stores the program can be in: those a sequence of calls builds from \<open>init\<close>.\<close>

inductive reachable :: "store \<Rightarrow> bool" where
  reachable_init: "reachable init"
| reachable_step: "reachable s \<Longrightarrow> reachable (step s c)"

subsection \<open>Properties of stores\<close>

text \<open>Every value of a collection is stored under its own \<open>id\<close> field.\<close>

definition keyed :: "('v \<Rightarrow> int) \<Rightarrow> 'v jsmap \<Rightarrow> bool" where
  "keyed key m = (\<forall>kv \<in> set m. key (snd kv) = fst kv)"

definition well_keyed :: "store \<Rightarrow> bool" where
  "well_keyed s \<longleftrightarrow>
     keyed user_id (users s) \<and> keyed post_id (posts s) \<and> keyed like_id (likes s) \<and>
     keyed comment_id (comments s) \<and> keyed friend_id (friends s) \<and>
     keyed story_id (stories s)"

text \<open>Every friend edge has an id below the next id to be handed out.\<close>

definition friend_ids_below :: "store \<Rightarrow> bool" where
  "friend_ids_below s = (\<forall>kv \<in> set (friends s). fst kv < currentFriendId s)"

text \<open>Every like has an id below the next id to be handed out.\<close>

definition like_ids_below :: "store \<Rightarrow> bool" where
  "like_ids_below s = (\<forall>kv \<in> set (likes s). fst kv < currentLikeId s)"

text \<open>Some friend edge joins \<open>a\<close> and \<open>b\<close>, in either direction, with the given status.\<close>

definition edge_between :: "store \<Rightarrow> string \<Rightarrow> int \<Rightarrow> int \<Rightarrow> bool" where
  "edge_between s st a b =
     (\<exists>f \<in> set (map_values (friends s)). friend_status f = st \<and>
        ((friend_userId f = a \<and> friend_friendId f = b) \<or>
         (friend_userId f = b \<and> friend_friendId f = a)))"

text \<open>No two stored likes have the same user and the same post.\<close>

definition one_like_per_pair :: "store \<Rightarrow> bool" where
  "one_like_per_pair s =
     distinct (map (\<lambda>l. (like_userId l, like_postId l)) (map_values (likes s)))"

text \<open>The store \<open>deleteUser\<close> holds after its loop over the user's posts.\<close>

definition afterPosts :: "store \<Rightarrow> int \<Rightarrow> store" where
  "afterPosts s i =
     fold (\<lambda>p st. snd (deletePost st (post_id (pp_post p))))
          (getPostsByUser (s\<lparr> users := map_delete i (users s) \<rparr>) i)
          (s\<lparr> users := map_delete i (users s) \<rparr>)"

text \<open>
  The visibility set of the feed of \<open>u\<close>: posts of \<open>u\<close> and of the users joined to \<open>u\<close>
  by an accepted edge.
\<close>

definition visible :: "store \<Rightarrow> int \<Rightarrow> post \<Rightarrow> bool" where
  "visible s u p \<longleftrightarrow> post_userId p = u \<or> edge_between s ''accepted'' u (post_userId p)"

text \<open>
  Edge \<open>i\<close> has left the pending state for good: it is accepted or rejected, or it is
  gone and its id will not be handed out again.
\<close>

definition settled :: "store \<Rightarrow> int \<Rightarrow> bool" where
  "settled s i \<longleftrightarrow>
     friend_ids_below s \<and>
     (case map_get (friends s) i of
        Some f \<Rightarrow> friend_status f = ''accepted'' \<or> friend_status f = ''rejected''
      | None \<Rightarrow> i < currentFriendId s)"

subsection \<open>A sample run\<close>

text \<open>
  Eight users; ann (1) and bob (2) are friends, cat (3) has a pending request to ann.
  bob's two posts carry the same timestamp. ann saved posts 2, 4 and 1, and post 4 was
  deleted afterwards.
\<close>

definition newUser :: "string \<Rightarrow> insertUser" where
  "newUser n = \<lparr> iu_username = n, iu_password = ''secret'', iu_name = n, iu_bio = None,
                 iu_profileImage = None, iu_coverImage = None, iu_coverColor = None,
                 iu_work = None, iu_education = None, iu_currentCity = None,
                 iu_hometown = None, iu_lastNameChange = None \<rparr>"

definition newPost :: "int \<Rightarrow> string \<Rightarrow> insertPost" where
  "newPost u c = \<lparr> ip_userId = u, ip_content = c, ip_image = None \<rparr>"

definition noUpdates :: userUpdates where
  "noUpdates = \<lparr> upd_id = None, upd_username = None, upd_password = None, upd_name = None,
                 upd_bio = None, upd_profileImage = None, upd_coverImage = None,
                 upd_coverColor = None, upd_work = None, upd_education = None,
                 upd_currentCity = None, upd_hometown = None, upd_createdAt = None,
                 upd_lastNameChange = None, upd_isBanned = None \<rparr>"

definition demo_calls :: "op list" where
  "demo_calls =
     [CreateUser (newUser ''ann'') 1, CreateUser (newUser ''bob'') 2,
      CreateUser (newUser ''cat'') 3, CreateUser (newUser ''dan'') 4,
      CreateUser (newUser ''eve'') 5, CreateUser (newUser ''fay'') 6,
      CreateUser (newUser ''gus'') 7, CreateUser (newUser ''hal'') 8,
      CreateFriendRequest \<lparr> if_userId = 1, if_friendId = 2, if_status = Some ''pending'' \<rparr> 9,
      AcceptFriendRequest 1,
      CreateFriendRequest \<lparr> if_userId = 3, if_friendId = 1, if_status = None \<rparr> 10,
      CreatePost (newPost 1 ''hello'') 20,
      CreatePost (newPost 2 ''first'') 30,
      CreatePost (newPost 2 ''second'') 30,
      CreatePost (newPost 4 ''unseen'') 40,
      CreateLike \<lparr> il_userId = 2, il_postId = 1 \<rparr> 41,
      CreateLike \<lparr> il_userId = 1, il_postId = 2 \<rparr> 42,
      CreateComment \<lparr> ic_userId = 2, ic_postId = 1, ic_content = ''hi'' \<rparr> 43,
      CreateComment \<lparr> ic_userId = 1, ic_postId = 2, ic_content = ''nice'' \<rparr> 44,
      SavePost 1 2, SavePost 1 4, SavePost 1 1,
      CreateStory 2 ''clip'' 45,
      DeletePost 4]"

definition demo :: store where
  "demo = run init demo_calls"

text \<open>A store in which ann has liked her own post once.\<close>

definition liked_once :: store where
  "liked_once = run init [CreateUser (newUser ''ann'') 1, CreatePost (newPost 1 ''hello'') 2,
                          CreateLike \<lparr> il_userId = 1, il_postId = 1 \<rparr> 3]"

text \<open>The equations that evaluate the methods on a concrete store.\<close>

lemmas store_defs =
  run_def init_def newUser_def newPost_def noUpdates_def
  map_get_def map_set_def map_delete_def map_values_def js_sort_def
  getUser_def createUser_def pick_def updateUser_def toggleUserBanStatus_def
  createLike_def getLike_def removeLike_def getLikesByPost_def
  createComment_def getCommentsByPost_def commentsWithAuthor_def
  createPost_def getPost_def withoutPassword_def getPostsByUser_def updatePost_def
  deletePost_def createFriendRequest_def acceptFriendRequest_def rejectFriendRequest_def
  getFriendRequest_def getFriends_def getFriendSuggestions_def getPostsForFeed_def
  deleteUser_def savePost_def unsavePost_def createStory_def getSavedPosts_def
  edge_between_def one_like_per_pair_def visible_def
  Let_def AList.delete_eq

section \<open>Lemmas about the store\<close>

subsection \<open>Maps and loops of deletions\<close>

lemma map_get_delete_same: "map_get (map_delete k m) k = None"
  by (simp add: map_get_def map_delete_def delete_conv')

lemma map_get_delete_other: "j \<noteq> k \<Longrightarrow> map_get (map_delete k m) j = map_get m j"
  by (simp add: map_get_def map_delete_def delete_conv')

lemma set_map_delete: "set (map_delete k m) \<subseteq> set m"
  by (auto simp: map_delete_def AList.delete_eq)

lemma fold_delete_filter:
  "fold (\<lambda>x m. if P x then map_delete (key x) m else m) xs m
     = filter (\<lambda>kv. fst kv \<notin> key ` {x \<in> set xs. P x}) m"
proof (induction xs arbitrary: m)
  case Nil
  then show ?case by simp
next
  case (Cons x xs)
  show ?case
  proof (cases "P x")
    case True
    have "fold (\<lambda>x m. if P x then map_delete (key x) m else m) (x # xs) m
            = filter (\<lambda>kv. fst kv \<notin> key ` {y \<in> set xs. P y}) (map_delete (key x) m)"
      using True Cons.IH by simp
    also have "\<dots> = filter (\<lambda>kv. fst kv \<notin> key ` {y \<in> set (x # xs). P y}) m"
      using True by (auto simp: map_delete_def AList.delete_eq intro!: filter_cong)
    finally show ?thesis .
  next
    case False
    have "{y \<in> set (x # xs). P y} = {y \<in> set xs. P y}"
      using False by auto
    then show ?thesis using False Cons.IH by simp
  qed
qed

lemma fold_delete_values:
  assumes "keyed key m"
  shows "\<forall>v \<in> set (map_values
            (fold (\<lambda>x m. if P x then map_delete (key x) m else m) (map_values m) m)). \<not> P v"
  using assms unfolding fold_delete_filter keyed_def map_values_def
  by force

lemma fold_delete_subset:
  "set (fold (\<lambda>x m. if P x then map_delete (key x) m else m) xs m) \<subseteq> set m"
  unfolding fold_delete_filter by auto

lemma keyed_subset: "keyed key m \<Longrightarrow> set m' \<subseteq> set m \<Longrightarrow> keyed key m'"
  unfolding keyed_def by blast

lemma keyed_map_get: "keyed key m \<Longrightarrow> v \<in> set (map_values m) \<Longrightarrow> map_get m (key v) \<noteq> None"
proof -
  assume k: "keyed key m" and v: "v \<in> set (map_values m)"
  from v obtain kv where kv: "kv \<in> set m" "v = snd kv"
    by (auto simp: map_values_def)
  with k have "key v = fst kv" by (simp add: keyed_def)
  with kv have "key v \<in> fst ` set m" by simp
  then show ?thesis by (simp add: map_get_def map_of_eq_None_iff)
qed

lemma set_js_sort: "set (js_sort cmp xs) = set xs"
proof -
  have ins: "set (insert_by cmp x ys) = insert x (set ys)" for x ys
    by (induction ys) auto
  show ?thesis unfolding js_sort_def by (induction xs) (simp_all add: ins)
qed

subsection \<open>deletePost\<close>

lemma deletePost_absent: "getPost s p = None \<Longrightarrow> deletePost s p = (False, s)"
  by (simp add: deletePost_def)

lemma deletePost_fst: "fst (deletePost s p) = (getPost s p \<noteq> None)"
  by (simp add: deletePost_def Let_def split: option.splits)

lemma deletePost_posts: "posts (snd (deletePost s p)) = map_delete p (posts s)"
proof (cases "getPost s p")
  case None
  then have "p \<notin> fst ` set (posts s)"
    by (simp add: getPost_def map_get_def map_of_eq_None_iff)
  then have "map_delete p (posts s) = posts s"
    by (simp add: map_delete_def delete_id)
  with None show ?thesis by (simp add: deletePost_def)
next
  case (Some a)
  then show ?thesis by (simp add: deletePost_def Let_def)
qed

lemma deletePost_frame:
  "users (snd (deletePost s p)) = users s"
  "friends (snd (deletePost s p)) = friends s"
  "savedPosts (snd (deletePost s p)) = savedPosts s"
  "stories (snd (deletePost s p)) = stories s"
  "currentUserId (snd (deletePost s p)) = currentUserId s"
  "currentPostId (snd (deletePost s p)) = currentPostId s"
  "currentLikeId (snd (deletePost s p)) = currentLikeId s"
  "currentCommentId (snd (deletePost s p)) = currentCommentId s"
  "currentFriendId (snd (deletePost s p)) = currentFriendId s"
  "currentStoryId (snd (deletePost s p)) = currentStoryId s"
  by (simp_all add: deletePost_def Let_def split: option.splits)

lemma deletePost_likes_subset: "set (likes (snd (deletePost s p))) \<subseteq> set (likes s)"
  using fold_delete_subset[of "\<lambda>l. like_postId l = p" like_id "map_values (likes s)" "likes s"]
  by (simp add: deletePost_def Let_def split: option.splits)

lemma deletePost_comments_subset: "set (comments (snd (deletePost s p))) \<subseteq> set (comments s)"
  using fold_delete_subset[of "\<lambda>c. comment_postId c = p" comment_id
          "map_values (comments s)" "comments s"]
  by (simp add: deletePost_def Let_def split: option.splits)

lemma deletePost_no_likes:
  assumes "getPost s p \<noteq> None" "keyed like_id (likes s)"
  shows "\<forall>l \<in> set (map_values (likes (snd (deletePost s p)))). like_postId l \<noteq> p"
  using assms(1) fold_delete_values[OF assms(2), of "\<lambda>l. like_postId l = p"]
  by (auto simp add: deletePost_def Let_def)

lemma deletePost_no_comments:
  assumes "getPost s p \<noteq> None" "keyed comment_id (comments s)"
  shows "\<forall>c \<in> set (map_values (comments (snd (deletePost s p)))). comment_postId c \<noteq> p"
  using assms(1) fold_delete_values[OF assms(2), of "\<lambda>c. comment_postId c = p"]
  by (auto simp add: deletePost_def Let_def)

lemma getLikesByPost_empty:
  "getLikesByPost s p = [] \<longleftrightarrow> (\<forall>l \<in> set (map_values (likes s)). like_postId l \<noteq> p)"
  by (auto simp: getLikesByPost_def filter_empty_conv)

lemma getCommentsByPost_empty:
  "getCommentsByPost s p = [] \<longleftrightarrow> (\<forall>c \<in> set (map_values (comments s)). comment_postId c \<noteq> p)"
proof -
  have "getCommentsByPost s p = [] \<longleftrightarrow> set (getCommentsByPost s p) = {}" by simp
  also have "\<dots> \<longleftrightarrow> (\<forall>c \<in> set (map_values (comments s)). comment_postId c \<noteq> p)"
    unfolding getCommentsByPost_def set_js_sort by auto
  finally show ?thesis .
qed

subsection \<open>The loop of deleteUser over the user's posts\<close>

lemma fold_deletePost_frame:
  "users (fold (\<lambda>p st. snd (deletePost st (f p))) ps st) = users st"
  "friends (fold (\<lambda>p st. snd (deletePost st (f p))) ps st) = friends st"
  "savedPosts (fold (\<lambda>p st. snd (deletePost st (f p))) ps st) = savedPosts st"
  "stories (fold (\<lambda>p st. snd (deletePost st (f p))) ps st) = stories st"
  "currentUserId (fold (\<lambda>p st. snd (deletePost st (f p))) ps st) = currentUserId st"
  "currentPostId (fold (\<lambda>p st. snd (deletePost st (f p))) ps st) = currentPostId st"
  "currentLikeId (fold (\<lambda>p st. snd (deletePost st (f p))) ps st) = currentLikeId st"
  "currentCommentId (fold (\<lambda>p st. snd (deletePost st (f p))) ps st) = currentCommentId st"
  "currentFriendId (fold (\<lambda>p st. snd (deletePost st (f p))) ps st) = currentFriendId st"
  "currentStoryId (fold (\<lambda>p st. snd (deletePost st (f p))) ps st) = currentStoryId st"
  by (induction ps arbitrary: st; simp add: deletePost_frame)+

lemma fold_deletePost_posts:
  "posts (fold (\<lambda>p st. snd (deletePost st (f p))) ps st)
     = filter (\<lambda>kv. fst kv \<notin> f ` set ps) (posts st)"
proof (induction ps arbitrary: st)
  case Nil
  then show ?case by simp
next
  case (Cons p ps)
  have "posts (fold (\<lambda>p st. snd (deletePost st (f p))) (p # ps) st)
          = filter (\<lambda>kv. fst kv \<notin> f ` set ps) (map_delete (f p) (posts st))"
    by (simp add: Cons.IH deletePost_posts)
  also have "\<dots> = filter (\<lambda>kv. fst kv \<notin> f ` set (p # ps)) (posts st)"
    by (auto simp: map_delete_def AList.delete_eq intro!: filter_cong)
  finally show ?case .
qed

lemma fold_deletePost_likes_subset:
  "set (likes (fold (\<lambda>p st. snd (deletePost st (f p))) ps st)) \<subseteq> set (likes st)"
proof (induction ps arbitrary: st)
  case Nil
  then show ?case by simp
next
  case (Cons p ps)
  show ?case using Cons.IH[of "snd (deletePost st (f p))"] deletePost_likes_subset[of st "f p"]
    by auto
qed

lemma fold_deletePost_comments_subset:
  "set (comments (fold (\<lambda>p st. snd (deletePost st (f p))) ps st)) \<subseteq> set (comments st)"
proof (induction ps arbitrary: st)
  case Nil
  then show ?case by simp
next
  case (Cons p ps)
  show ?case using Cons.IH[of "snd (deletePost st (f p))"] deletePost_comments_subset[of st "f p"]
    by auto
qed

lemma getPost_deletePost_other:
  "j \<noteq> p \<Longrightarrow> getPost (snd (deletePost st p)) j = getPost st j"
  by (simp add: getPost_def deletePost_posts map_get_delete_other)

lemma fold_deletePost_no_likes:
  assumes "keyed like_id (likes st)" "q \<in> set ps" "getPost st (f q) \<noteq> None"
  shows "\<forall>l \<in> set (map_values (likes (fold (\<lambda>p st. snd (deletePost st (f p))) ps st))).
           like_postId l \<noteq> f q"
  using assms
proof (induction ps arbitrary: st)
  case Nil
  then show ?case by simp
next
  case (Cons p ps)
  let ?st = "snd (deletePost st (f p))"
  have k: "keyed like_id (likes ?st)"
    using Cons.prems(1) deletePost_likes_subset keyed_subset by blast
  show ?case
  proof (cases "f q = f p")
    case True
    then have "\<forall>l \<in> set (map_values (likes ?st)). like_postId l \<noteq> f q"
      using deletePost_no_likes[of st "f p"] Cons.prems by simp
    moreover have "set (likes (fold (\<lambda>p st. snd (deletePost st (f p))) ps ?st)) \<subseteq> set (likes ?st)"
      by (rule fold_deletePost_likes_subset)
    ultimately show ?thesis by (auto simp: map_values_def)
  next
    case False
    then have "q \<in> set ps" using Cons.prems(2) by auto
    moreover have "getPost ?st (f q) \<noteq> None"
      using False Cons.prems(3) by (simp add: getPost_deletePost_other)
    ultimately show ?thesis using Cons.IH[OF k] by simp
  qed
qed

lemma fold_deletePost_no_comments:
  assumes "keyed comment_id (comments st)" "q \<in> set ps" "getPost st (f q) \<noteq> None"
  shows "\<forall>c \<in> set (map_values (comments (fold (\<lambda>p st. snd (deletePost st (f p))) ps st))).
           comment_postId c \<noteq> f q"
  using assms
proof (induction ps arbitrary: st)
  case Nil
  then show ?case by simp
next
  case (Cons p ps)
  let ?st = "snd (deletePost st (f p))"
  have k: "keyed comment_id (comments ?st)"
    using Cons.prems(1) deletePost_comments_subset keyed_subset by blast
  show ?case
  proof (cases "f q = f p")
    case True
    then have "\<forall>c \<in> set (map_values (comments ?st)). comment_postId c \<noteq> f q"
      using deletePost_no_comments[of st "f p"] Cons.prems by simp
    moreover have "set (comments (fold (\<lambda>p st. snd (deletePost st (f p))) ps ?st))
                     \<subseteq> set (comments ?st)"
      by (rule fold_deletePost_comments_subset)
    ultimately show ?thesis by (auto simp: map_values_def)
  next
    case False
    then have "q \<in> set ps" using Cons.prems(2) by auto
    moreover have "getPost ?st (f q) \<noteq> None"
      using False Cons.prems(3) by (simp add: getPost_deletePost_other)
    ultimately show ?thesis using Cons.IH[OF k] by simp
  qed
qed

lemma getPostsByUser_posts:
  "pp_post ` set (getPostsByUser s u) = {p \<in> set (map_values (posts s)). post_userId p = u}"
  by (simp add: getPostsByUser_def Let_def image_image set_js_sort)

subsection \<open>deleteUser\<close>

lemma deleteUser_absent: "getUser s i = None \<Longrightarrow> deleteUser s i = (False, s)"
  by (simp add: deleteUser_def)

lemma deleteUser_fst: "fst (deleteUser s i) = (getUser s i \<noteq> None)"
  by (simp add: deleteUser_def Let_def split: option.splits)

lemma deleteUser_present:
  assumes "getUser s i \<noteq> None"
  shows "users (snd (deleteUser s i)) = map_delete i (users s)"
    and "posts (snd (deleteUser s i)) = posts (afterPosts s i)"
    and "likes (snd (deleteUser s i)) =
           fold (\<lambda>l m. if like_userId l = i then map_delete (like_id l) m else m)
                (map_values (likes (afterPosts s i))) (likes (afterPosts s i))"
    and "comments (snd (deleteUser s i)) =
           fold (\<lambda>c m. if comment_userId c = i then map_delete (comment_id c) m else m)
                (map_values (comments (afterPosts s i))) (comments (afterPosts s i))"
    and "friends (snd (deleteUser s i)) =
           fold (\<lambda>f m. if friend_userId f = i \<or> friend_friendId f = i
                        then map_delete (friend_id f) m else m)
                (map_values (friends s)) (friends s)"
  using assms
  by (auto simp add: deleteUser_def Let_def afterPosts_def fold_deletePost_frame)

lemma deleteUser_frame:
  "savedPosts (snd (deleteUser s i)) = savedPosts s"
  "stories (snd (deleteUser s i)) = stories s"
  "currentUserId (snd (deleteUser s i)) = currentUserId s"
  "currentPostId (snd (deleteUser s i)) = currentPostId s"
  "currentLikeId (snd (deleteUser s i)) = currentLikeId s"
  "currentCommentId (snd (deleteUser s i)) = currentCommentId s"
  "currentFriendId (snd (deleteUser s i)) = currentFriendId s"
  "currentStoryId (snd (deleteUser s i)) = currentStoryId s"
  by (simp_all add: deleteUser_def Let_def fold_deletePost_frame split: option.splits)

lemma afterPosts_posts:
  "posts (afterPosts s i)
     = filter (\<lambda>kv. fst kv \<notin> post_id ` {p \<in> set (map_values (posts s)). post_userId p = i})
              (posts s)"
proof -
  let ?s1 = "s\<lparr> users := map_delete i (users s) \<rparr>"
  have "(\<lambda>p. post_id (pp_post p)) ` set (getPostsByUser ?s1 i)
          = post_id ` {p \<in> set (map_values (posts s)). post_userId p = i}"
    using getPostsByUser_posts[of ?s1 i] by (simp add: image_image[symmetric])
  then show ?thesis
    unfolding afterPosts_def fold_deletePost_posts by simp
qed

lemma afterPosts_likes_subset: "set (likes (afterPosts s i)) \<subseteq> set (likes s)"
  unfolding afterPosts_def using fold_deletePost_likes_subset
    [of "\<lambda>p. post_id (pp_post p)" _ "s\<lparr> users := map_delete i (users s) \<rparr>"] by simp

lemma afterPosts_comments_subset: "set (comments (afterPosts s i)) \<subseteq> set (comments s)"
  unfolding afterPosts_def using fold_deletePost_comments_subset
    [of "\<lambda>p. post_id (pp_post p)" _ "s\<lparr> users := map_delete i (users s) \<rparr>"] by simp

lemma deleteUser_likes_subset:
  assumes "getUser s i \<noteq> None"
  shows "set (likes (snd (deleteUser s i))) \<subseteq> set (likes s)"
proof -
  have "set (likes (snd (deleteUser s i))) \<subseteq> set (likes (afterPosts s i))"
    unfolding deleteUser_present(3)[OF assms] by (rule fold_delete_subset)
  also have "\<dots> \<subseteq> set (likes s)" by (rule afterPosts_likes_subset)
  finally show ?thesis .
qed

lemma deleteUser_comments_subset:
  assumes "getUser s i \<noteq> None"
  shows "set (comments (snd (deleteUser s i))) \<subseteq> set (comments s)"
proof -
  have "set (comments (snd (deleteUser s i))) \<subseteq> set (comments (afterPosts s i))"
    unfolding deleteUser_present(4)[OF assms] by (rule fold_delete_subset)
  also have "\<dots> \<subseteq> set (comments s)" by (rule afterPosts_comments_subset)
  finally show ?thesis .
qed

lemma deleteUser_no_posts:
  assumes "getUser s u \<noteq> None" "keyed post_id (posts s)"
  shows "\<forall>p \<in> set (map_values (posts (snd (deleteUser s u)))). post_userId p \<noteq> u"
proof
  fix p assume "p \<in> set (map_values (posts (snd (deleteUser s u))))"
  then obtain kv where kv: "kv \<in> set (posts s)" "p = snd kv"
      "fst kv \<notin> post_id ` {p \<in> set (map_values (posts s)). post_userId p = u}"
    unfolding deleteUser_present(2)[OF assms(1)] afterPosts_posts map_values_def by auto
  from kv(1,2) assms(2) have "post_id p = fst kv" by (simp add: keyed_def)
  moreover from kv(1,2) have "p \<in> set (map_values (posts s))" by (simp add: map_values_def)
  ultimately have pid: "post_id p = fst kv" and pin: "p \<in> set (map_values (posts s))" .
  show "post_userId p \<noteq> u"
  proof
    assume "post_userId p = u"
    with pin have "p \<in> {p \<in> set (map_values (posts s)). post_userId p = u}" by simp
    then have "post_id p \<in> post_id ` {p \<in> set (map_values (posts s)). post_userId p = u}"
      by (rule imageI)
    with kv(3) pid show False by simp
  qed
qed

lemma deleteUser_posts_cascade:
  assumes present: "getUser s u \<noteq> None"
    and kp: "keyed post_id (posts s)" and kl: "keyed like_id (likes s)"
    and kc: "keyed comment_id (comments s)"
    and p: "p \<in> set (map_values (posts s))" "post_userId p = u"
  shows "getPost (snd (deleteUser s u)) (post_id p) = None"
    and "getLikesByPost (snd (deleteUser s u)) (post_id p) = []"
    and "getCommentsByPost (snd (deleteUser s u)) (post_id p) = []"
proof -
  let ?s1 = "s\<lparr> users := map_delete u (users s) \<rparr>"
  let ?f = "\<lambda>q. post_id (pp_post q)"
  from p have "p \<in> pp_post ` set (getPostsByUser ?s1 u)"
    unfolding getPostsByUser_posts by simp
  then obtain q where q: "q \<in> set (getPostsByUser ?s1 u)" "pp_post q = p" by auto
  have there: "getPost ?s1 (?f q) \<noteq> None"
    using keyed_map_get[OF kp p(1)] q(2) by (simp add: getPost_def)
  have "post_id p \<in> post_id ` {p \<in> set (map_values (posts s)). post_userId p = u}"
    using p by auto
  then have "post_id p \<notin> fst ` set (posts (afterPosts s u))"
    unfolding afterPosts_posts by auto
  then show "getPost (snd (deleteUser s u)) (post_id p) = None"
    unfolding getPost_def deleteUser_present(2)[OF present]
    by (simp add: map_get_def map_of_eq_None_iff)
  have "\<forall>l \<in> set (map_values (likes (afterPosts s u))). like_postId l \<noteq> ?f q"
    unfolding afterPosts_def
    by (rule fold_deletePost_no_likes[where f = "?f" and q = q, OF _ q(1) there])
       (simp add: kl)
  moreover have "set (likes (snd (deleteUser s u))) \<subseteq> set (likes (afterPosts s u))"
    unfolding deleteUser_present(3)[OF present] by (rule fold_delete_subset)
  ultimately show "getLikesByPost (snd (deleteUser s u)) (post_id p) = []"
    unfolding getLikesByPost_empty using q(2) by (auto simp: map_values_def)
  have "\<forall>c \<in> set (map_values (comments (afterPosts s u))). comment_postId c \<noteq> ?f q"
    unfolding afterPosts_def
    by (rule fold_deletePost_no_comments[where f = "?f" and q = q, OF _ q(1) there])
       (simp add: kc)
  moreover have "set (comments (snd (deleteUser s u))) \<subseteq> set (comments (afterPosts s u))"
    unfolding deleteUser_present(4)[OF present] by (rule fold_delete_subset)
  ultimately show "getCommentsByPost (snd (deleteUser s u)) (post_id p) = []"
    unfolding getCommentsByPost_empty using q(2) by (auto simp: map_values_def)
qed

subsection \<open>Sorting\<close>





subsection \<open>Friends\<close>

lemma getFriends_edges:
  "map fwu_friend (getFriends s u)
     = filter (\<lambda>f. friend_status f = ''accepted'' \<and> (friend_userId f = u \<or> friend_friendId f = u))
         (map_values (friends s))"
  by (simp add: getFriends_def Let_def comp_def)

lemma suggestion_excluded:
  "x \<in> set (map (\<lambda>f. if friend_friendId (fwu_friend f) = u
                         then friend_userId (fwu_friend f)
                         else friend_friendId (fwu_friend f)) (getFriends s u)) \<union> {u}
     \<longleftrightarrow> x = u \<or> edge_between s ''accepted'' u x"
proof -
  have "set (map (\<lambda>f. if friend_friendId (fwu_friend f) = u
                         then friend_userId (fwu_friend f)
                         else friend_friendId (fwu_friend f)) (getFriends s u))
          = (\<lambda>f. if friend_friendId f = u then friend_userId f else friend_friendId f)
              ` set (map fwu_friend (getFriends s u))"
    by (simp only: set_map image_image)
  then show ?thesis
    unfolding getFriends_edges edge_between_def by (auto split: if_splits)
qed



subsection \<open>Friend requests\<close>

lemma getFriendRequest_sym: "getFriendRequest s a b = getFriendRequest s b a"
  unfolding getFriendRequest_def by (rule find_cong) auto

lemma update_absent_append: "k \<notin> fst ` set m \<Longrightarrow> AList.update k v m = m @ [(k, v)]"
  by (induction m) auto

lemma find_update_new:
  "find P (map snd m) = None \<Longrightarrow> P v \<Longrightarrow> find P (map snd (AList.update k v m)) = Some v"
  by (induction m) (auto split: if_splits)

lemma find_append_found: "find P xs \<noteq> None \<Longrightarrow> find P (xs @ ys) = find P xs"
  by (induction xs) auto

lemma find_update_some:
  "P v \<Longrightarrow> \<exists>e. find P (map snd (AList.update k v m)) = Some e \<and> P e"
  by (induction m) auto

subsection \<open>Likes\<close>

lemma set_update_subset: "set (AList.update k v m) \<subseteq> insert (k, v) (set m)"
  by (induction m) auto

lemma distinct_update_values:
  "distinct (map g (map snd m)) \<Longrightarrow> g v \<notin> g ` snd ` set m
     \<Longrightarrow> distinct (map g (map snd (AList.update k v m)))"
proof (induction m)
  case Nil
  then show ?case by simp
next
  case (Cons p m)
  show ?case
  proof (cases "fst p = k")
    case True
    then show ?thesis using Cons.prems by (auto simp: image_iff)
  next
    case False
    have "g (snd p) \<notin> g ` snd ` set (AList.update k v m)"
      using set_update_subset[of k v m] Cons.prems by (auto simp: image_iff)
    then show ?thesis using False Cons by (auto simp: image_iff)
  qed
qed

subsection \<open>Map lemmas\<close>

lemma map_get_set: "map_get (map_set k v m) j = (if j = k then Some v else map_get m j)"
  by (simp add: map_get_def map_set_def update_conv')

lemma set_map_set: "set (map_set k v m) \<subseteq> insert (k, v) (set m)"
  unfolding map_set_def by (rule set_update_subset)

lemma keyed_map_set: "keyed key m \<Longrightarrow> key v = k \<Longrightarrow> keyed key (map_set k v m)"
  using set_map_set[of k v m] unfolding keyed_def by auto

lemma keyed_map_delete: "keyed key m \<Longrightarrow> keyed key (map_delete k m)"
  using set_map_delete keyed_subset by blast

lemma keyed_fold_delete:
  "keyed key m \<Longrightarrow> keyed key (fold (\<lambda>x m. if P x then map_delete (key' x) m else m) xs m)"
  using fold_delete_subset keyed_subset by blast

lemma keyed_get: "keyed key m \<Longrightarrow> map_get m i = Some v \<Longrightarrow> key v = i"
proof -
  assume k: "keyed key m" and "map_get m i = Some v"
  then have "(i, v) \<in> set m" by (simp add: map_get_def map_of_SomeD)
  with k show ?thesis by (force simp: keyed_def)
qed

lemma map_get_filter_keys:
  "map_get (filter (\<lambda>kv. fst kv \<notin> K) m) j = (if j \<in> K then None else map_get m j)"
  unfolding map_get_def by (induction m) auto

subsection \<open>Every reachable store is well keyed\<close>

lemma well_keyed_init: "well_keyed init"
  by (simp add: well_keyed_def keyed_def init_def)

lemma well_keyed_deletePost: "well_keyed s \<Longrightarrow> well_keyed (snd (deletePost s p))"
  unfolding well_keyed_def
  using deletePost_likes_subset[of s p] deletePost_comments_subset[of s p]
  by (auto simp: deletePost_frame deletePost_posts keyed_map_delete intro: keyed_subset)

lemma well_keyed_fold_deletePost:
  "well_keyed s \<Longrightarrow> well_keyed (fold (\<lambda>p st. snd (deletePost st (f p))) ps s)"
  by (induction ps arbitrary: s) (simp_all add: well_keyed_deletePost)

lemma well_keyed_deleteUser: "well_keyed s \<Longrightarrow> well_keyed (snd (deleteUser s u))"
proof (cases "getUser s u")
  case None
  then show "well_keyed s \<Longrightarrow> ?thesis" by (simp add: deleteUser_absent)
next
  case (Some a)
  assume wk: "well_keyed s"
  have "well_keyed (s\<lparr> users := map_delete u (users s) \<rparr>)"
    using wk by (simp add: well_keyed_def keyed_map_delete)
  then have ap: "well_keyed (afterPosts s u)"
    unfolding afterPosts_def by (rule well_keyed_fold_deletePost)
  have p: "getUser s u \<noteq> None" using Some by simp
  have "keyed user_id (users (snd (deleteUser s u)))"
    using wk by (simp add: deleteUser_present(1)[OF p] well_keyed_def keyed_map_delete)
  moreover have "keyed post_id (posts (snd (deleteUser s u)))"
    using ap by (simp add: deleteUser_present(2)[OF p] well_keyed_def)
  moreover have "keyed like_id (likes (snd (deleteUser s u)))"
    unfolding deleteUser_present(3)[OF p]
    using ap by (intro keyed_fold_delete) (simp add: well_keyed_def)
  moreover have "keyed comment_id (comments (snd (deleteUser s u)))"
    unfolding deleteUser_present(4)[OF p]
    using ap by (intro keyed_fold_delete) (simp add: well_keyed_def)
  moreover have "keyed friend_id (friends (snd (deleteUser s u)))"
    unfolding deleteUser_present(5)[OF p]
    using wk by (intro keyed_fold_delete) (simp add: well_keyed_def)
  moreover have "keyed story_id (stories (snd (deleteUser s u)))"
    using wk by (simp add: deleteUser_frame well_keyed_def)
  ultimately show ?thesis by (simp add: well_keyed_def)
qed

lemma well_keyed_step: "well_keyed s \<Longrightarrow> well_keyed (step s c)"
proof (cases c)
  case (DeleteUser x)
  then show "well_keyed s \<Longrightarrow> ?thesis" by (simp add: well_keyed_deleteUser)
next
  case (DeletePost x)
  then show "well_keyed s \<Longrightarrow> ?thesis" by (simp add: well_keyed_deletePost)
next
  case (CreateUser ins now)
  then show "well_keyed s \<Longrightarrow> ?thesis"
    by (simp add: well_keyed_def createUser_def Let_def keyed_map_set)
next
  case (UpdateUser i upd)
  then show "well_keyed s \<Longrightarrow> ?thesis"
    by (auto simp: well_keyed_def updateUser_def Let_def getUser_def
          intro!: keyed_map_set dest: keyed_get split: option.splits)
next
  case (ToggleUserBanStatus i)
  then show "well_keyed s \<Longrightarrow> ?thesis"
    by (auto simp: well_keyed_def toggleUserBanStatus_def Let_def getUser_def
          intro!: keyed_map_set dest: keyed_get split: option.splits)
next
  case (CreatePost ins now)
  then show "well_keyed s \<Longrightarrow> ?thesis"
    by (simp add: well_keyed_def createPost_def Let_def keyed_map_set)
next
  case (UpdatePost i content)
  then show "well_keyed s \<Longrightarrow> ?thesis"
    by (auto simp: well_keyed_def updatePost_def Let_def getPost_def
          intro!: keyed_map_set dest: keyed_get split: option.splits)
next
  case (CreateLike ins now)
  then show "well_keyed s \<Longrightarrow> ?thesis"
    by (simp add: well_keyed_def createLike_def Let_def keyed_map_set)
next
  case (RemoveLike a b)
  then show "well_keyed s \<Longrightarrow> ?thesis"
    by (auto simp: well_keyed_def removeLike_def keyed_map_delete split: option.splits)
next
  case (CreateComment ins now)
  then show "well_keyed s \<Longrightarrow> ?thesis"
    by (simp add: well_keyed_def createComment_def Let_def keyed_map_set)
next
  case (CreateFriendRequest ins now)
  then show "well_keyed s \<Longrightarrow> ?thesis"
    by (simp add: well_keyed_def createFriendRequest_def Let_def keyed_map_set)
next
  case (AcceptFriendRequest i)
  then show "well_keyed s \<Longrightarrow> ?thesis"
    by (auto simp: well_keyed_def acceptFriendRequest_def Let_def
          intro!: keyed_map_set dest: keyed_get split: option.splits)
next
  case (RejectFriendRequest i)
  then show "well_keyed s \<Longrightarrow> ?thesis"
    by (auto simp: well_keyed_def rejectFriendRequest_def Let_def
          intro!: keyed_map_set dest: keyed_get split: option.splits)
next
  case (SavePost a b)
  then show "well_keyed s \<Longrightarrow> ?thesis"
    by (simp add: well_keyed_def savePost_def Let_def)
next
  case (UnsavePost a b)
  then show "well_keyed s \<Longrightarrow> ?thesis"
    by (simp add: well_keyed_def unsavePost_def split: option.splits)
next
  case (CreateStory a m now)
  then show "well_keyed s \<Longrightarrow> ?thesis"
    by (simp add: well_keyed_def createStory_def Let_def keyed_map_set)
qed

lemma reachable_well_keyed: "reachable s \<Longrightarrow> well_keyed s"
  by (induction rule: reachable.induct) (simp_all add: well_keyed_init well_keyed_step)

lemma reachable_run: "reachable s \<Longrightarrow> reachable (run s cs)"
  unfolding run_def
  by (induction cs arbitrary: s) (simp_all add: reachable_step)

subsection \<open>Friend edges along a run\<close>

lemma step_friends:
  "(\<exists>ins now. c = CreateFriendRequest ins now) \<or> (\<exists>j. c = AcceptFriendRequest j) \<or>
   (\<exists>j. c = RejectFriendRequest j) \<or> (\<exists>u. c = DeleteUser u) \<or>
   (friends (step s c) = friends s \<and> currentFriendId (step s c) = currentFriendId s)"
  by (cases c)
     (simp_all add: createUser_def updateUser_def toggleUserBanStatus_def createPost_def
        updatePost_def deletePost_frame createLike_def removeLike_def createComment_def
        savePost_def unsavePost_def createStory_def Let_def split: option.splits)

lemma friend_ids_below_subset:
  "friend_ids_below s \<Longrightarrow> set (friends s') \<subseteq> set (friends s)
     \<Longrightarrow> currentFriendId s' = currentFriendId s \<Longrightarrow> friend_ids_below s'"
  unfolding friend_ids_below_def by auto

lemma below_get: "friend_ids_below s \<Longrightarrow> map_get (friends s) i = Some f \<Longrightarrow> i < currentFriendId s"
proof -
  assume b: "friend_ids_below s" and "map_get (friends s) i = Some f"
  then have "(i, f) \<in> set (friends s)" by (simp add: map_get_def map_of_SomeD)
  with b show ?thesis by (force simp: friend_ids_below_def)
qed

lemma below_fresh:
  assumes "friend_ids_below s"
  shows "map_get (friends s) (currentFriendId s) = None"
proof (rule ccontr)
  assume "map_get (friends s) (currentFriendId s) \<noteq> None"
  then obtain f where "map_get (friends s) (currentFriendId s) = Some f" by auto
  from below_get[OF assms this] show False by simp
qed

lemma below_create:
  "friend_ids_below s \<Longrightarrow> friend_ids_below (snd (createFriendRequest s ins now))"
  using set_map_set[of "currentFriendId s" "fst (createFriendRequest s ins now)" "friends s"]
  unfolding friend_ids_below_def
  by (fastforce simp: createFriendRequest_def Let_def)

lemma below_set_status:
  assumes "friend_ids_below s" "map_get (friends s) j = Some f"
  shows "friend_ids_below (s\<lparr> friends := map_set j f' (friends s) \<rparr>)"
proof -
  have "j < currentFriendId s" using assms by (rule below_get)
  then show ?thesis
    using assms(1) set_map_set[of j f' "friends s"]
    unfolding friend_ids_below_def by fastforce
qed

lemma below_accept: "friend_ids_below s \<Longrightarrow> friend_ids_below (snd (acceptFriendRequest s j))"
  by (auto simp: acceptFriendRequest_def Let_def below_set_status split: option.splits)

lemma below_reject: "friend_ids_below s \<Longrightarrow> friend_ids_below (snd (rejectFriendRequest s j))"
  by (auto simp: rejectFriendRequest_def Let_def below_set_status split: option.splits)

lemma deleteUser_friends:
  "getUser s u \<noteq> None \<Longrightarrow>
   friends (snd (deleteUser s u))
     = filter (\<lambda>kv. fst kv \<notin> friend_id ` {f \<in> set (map_values (friends s)).
                                  friend_userId f = u \<or> friend_friendId f = u}) (friends s)"
  unfolding deleteUser_present(5) by (rule fold_delete_filter)

lemma below_deleteUser: "friend_ids_below s \<Longrightarrow> friend_ids_below (snd (deleteUser s u))"
proof (cases "getUser s u")
  case None
  then show "friend_ids_below s \<Longrightarrow> ?thesis" by (simp add: deleteUser_absent)
next
  case (Some a)
  then have p: "getUser s u \<noteq> None" by simp
  show "friend_ids_below s \<Longrightarrow> ?thesis"
    by (rule friend_ids_below_subset[of s]) (auto simp: deleteUser_friends[OF p] deleteUser_frame)
qed

lemma friend_ids_below_step: "friend_ids_below s \<Longrightarrow> friend_ids_below (step s c)"
proof -
  assume b: "friend_ids_below s"
  consider (cr) ins now where "c = CreateFriendRequest ins now"
    | (ac) j where "c = AcceptFriendRequest j"
    | (rj) j where "c = RejectFriendRequest j"
    | (du) u where "c = DeleteUser u"
    | (same) "friends (step s c) = friends s \<and> currentFriendId (step s c) = currentFriendId s"
    using step_friends[of c s] by blast
  then show ?thesis
  proof cases
    case cr then show ?thesis using b by (simp add: below_create)
  next
    case ac then show ?thesis using b by (simp add: below_accept)
  next
    case rj then show ?thesis using b by (simp add: below_reject)
  next
    case du then show ?thesis using b by (simp add: below_deleteUser)
  next
    case same then show ?thesis using b by (simp add: friend_ids_below_def)
  qed
qed

lemma reachable_friend_ids_below: "reachable s \<Longrightarrow> friend_ids_below s"
proof (induction rule: reachable.induct)
  case reachable_init
  show ?case by (simp add: friend_ids_below_def init_def)
next
  case (reachable_step s c)
  then show ?case by (simp add: friend_ids_below_step)
qed

lemma settled_create: "settled s i \<Longrightarrow> settled (snd (createFriendRequest s ins now)) i"
proof -
  assume st: "settled s i"
  let ?r = "createFriendRequest s ins now"
  have f: "friends (snd ?r) = map_set (currentFriendId s) (fst ?r) (friends s)"
    and c: "currentFriendId (snd ?r) = currentFriendId s + 1"
    by (simp_all add: createFriendRequest_def Let_def)
  have below: "friend_ids_below (snd ?r)"
    using st by (simp add: settled_def below_create)
  have "i \<noteq> currentFriendId s" if "map_get (friends s) i = Some x" for x
    using below_get[OF _ that] st by (auto simp: settled_def)
  then show ?thesis
    using st below unfolding settled_def f c map_get_set
    by (auto split: option.splits)
qed

lemma settled_set_status:
  assumes "settled s i" "map_get (friends s) j = Some f"
    "st = ''accepted'' \<or> st = ''rejected''"
  shows "settled (s\<lparr> friends := map_set j (f\<lparr> friend_status := st \<rparr>) (friends s) \<rparr>) i"
proof -
  have "friend_ids_below (s\<lparr> friends := map_set j (f\<lparr> friend_status := st \<rparr>) (friends s) \<rparr>)"
    using assms(1,2) by (simp add: settled_def below_set_status)
  then show ?thesis
    using assms unfolding settled_def by (auto simp: map_get_set split: option.splits)
qed

lemma settled_accept: "settled s i \<Longrightarrow> settled (snd (acceptFriendRequest s j)) i"
  using settled_set_status[of s i j _ "''accepted''"]
  by (auto simp: acceptFriendRequest_def Let_def split: option.splits)

lemma settled_reject: "settled s i \<Longrightarrow> settled (snd (rejectFriendRequest s j)) i"
  using settled_set_status[of s i j _ "''rejected''"]
  by (auto simp: rejectFriendRequest_def Let_def split: option.splits)

lemma settled_deleteUser: "settled s i \<Longrightarrow> settled (snd (deleteUser s u)) i"
proof (cases "getUser s u")
  case None
  then show "settled s i \<Longrightarrow> ?thesis" by (simp add: deleteUser_absent)
next
  case (Some a)
  assume st: "settled s i"
  have p: "getUser s u \<noteq> None" using Some by simp
  have below: "friend_ids_below (snd (deleteUser s u))"
    using st by (simp add: settled_def below_deleteUser)
  have "i < currentFriendId s" if "map_get (friends s) i = Some x" for x
    using below_get[OF _ that] st by (auto simp: settled_def)
  then show ?thesis
    using st below unfolding settled_def deleteUser_friends[OF p] map_get_filter_keys deleteUser_frame
    by (auto split: option.splits)
qed

lemma settled_step: "settled s i \<Longrightarrow> settled (step s c) i"
proof -
  assume st: "settled s i"
  consider (cr) ins now where "c = CreateFriendRequest ins now"
    | (ac) j where "c = AcceptFriendRequest j"
    | (rj) j where "c = RejectFriendRequest j"
    | (du) u where "c = DeleteUser u"
    | (same) "friends (step s c) = friends s \<and> currentFriendId (step s c) = currentFriendId s"
    using step_friends[of c s] by blast
  then show ?thesis
  proof cases
    case cr then show ?thesis using st by (simp add: settled_create)
  next
    case ac then show ?thesis using st by (simp add: settled_accept)
  next
    case rj then show ?thesis using st by (simp add: settled_reject)
  next
    case du then show ?thesis using st by (simp add: settled_deleteUser)
  next
    case same then show ?thesis using st
      by (auto simp: settled_def friend_ids_below_def split: option.splits)
  qed
qed

lemma settled_run: "settled s i \<Longrightarrow> settled (run s cs) i"
  unfolding run_def by (induction cs arbitrary: s) (simp_all add: settled_step)

subsection \<open>Like ids along a run\<close>

lemma step_likes:
  "(\<exists>ins now. c = CreateLike ins now) \<or> (\<exists>u p. c = RemoveLike u p) \<or>
   (\<exists>p. c = DeletePost p) \<or> (\<exists>u. c = DeleteUser u) \<or>
   (likes (step s c) = likes s \<and> currentLikeId (step s c) = currentLikeId s)"
  by (cases c)
     (simp_all add: createUser_def updateUser_def toggleUserBanStatus_def createPost_def
        updatePost_def createComment_def createFriendRequest_def acceptFriendRequest_def
        rejectFriendRequest_def savePost_def unsavePost_def createStory_def Let_def
        split: option.splits)

lemma like_ids_below_subset:
  "like_ids_below s \<Longrightarrow> set (likes s') \<subseteq> set (likes s)
     \<Longrightarrow> currentLikeId s' = currentLikeId s \<Longrightarrow> like_ids_below s'"
  unfolding like_ids_below_def by auto

lemma like_below_create: "like_ids_below s \<Longrightarrow> like_ids_below (snd (createLike s ins now))"
  using set_map_set[of "currentLikeId s" "fst (createLike s ins now)" "likes s"]
  unfolding like_ids_below_def
  by (fastforce simp: createLike_def Let_def)

lemma like_below_remove: "like_ids_below s \<Longrightarrow> like_ids_below (removeLike s u p)"
proof (cases "getLike s u p")
  case None
  then show "like_ids_below s \<Longrightarrow> ?thesis" by (simp add: removeLike_def)
next
  case (Some l)
  show "like_ids_below s \<Longrightarrow> ?thesis"
    by (rule like_ids_below_subset[of s]) (use Some set_map_delete in \<open>auto simp: removeLike_def\<close>)
qed

lemma like_below_deletePost: "like_ids_below s \<Longrightarrow> like_ids_below (snd (deletePost s p))"
  by (rule like_ids_below_subset[of s])
     (simp_all add: deletePost_likes_subset deletePost_frame)

lemma like_below_deleteUser: "like_ids_below s \<Longrightarrow> like_ids_below (snd (deleteUser s u))"
proof (cases "getUser s u")
  case None
  then show "like_ids_below s \<Longrightarrow> ?thesis" by (simp add: deleteUser_absent)
next
  case (Some a)
  then have p: "getUser s u \<noteq> None" by simp
  show "like_ids_below s \<Longrightarrow> ?thesis"
    by (rule like_ids_below_subset[of s])
       (simp_all add: deleteUser_likes_subset[OF p] deleteUser_frame)
qed

lemma like_ids_below_step: "like_ids_below s \<Longrightarrow> like_ids_below (step s c)"
proof -
  assume b: "like_ids_below s"
  consider (cr) ins now where "c = CreateLike ins now"
    | (rm) u p where "c = RemoveLike u p"
    | (dp) p where "c = DeletePost p"
    | (du) u where "c = DeleteUser u"
    | (same) "likes (step s c) = likes s \<and> currentLikeId (step s c) = currentLikeId s"
    using step_likes[of c s] by blast
  then show ?thesis
  proof cases
    case cr then show ?thesis using b by (simp add: like_below_create)
  next
    case rm then show ?thesis using b by (simp add: like_below_remove)
  next
    case dp then show ?thesis using b by (simp add: like_below_deletePost)
  next
    case du then show ?thesis using b by (simp add: like_below_deleteUser)
  next
    case same then show ?thesis using b by (simp add: like_ids_below_def)
  qed
qed

lemma reachable_like_ids_below: "reachable s \<Longrightarrow> like_ids_below s"
proof (induction rule: reachable.induct)
  case reachable_init
  show ?case by (simp add: like_ids_below_def init_def)
next
  case (reachable_step s c)
  then show ?case by (simp add: like_ids_below_step)
qed

lemma like_fresh:
  assumes "like_ids_below s"
  shows "currentLikeId s \<notin> fst ` set (likes s)"
  using assms unfolding like_ids_below_def by fastforce

section \<open>The claims\<close>

lemma reachable_demo: "reachable demo"
  unfolding demo_def by (rule reachable_run[OF reachable_init])

lemma reachable_keyed:
  assumes "reachable s"
  shows "keyed post_id (posts s)" and "keyed like_id (likes s)"
    and "keyed comment_id (comments s)" and "keyed friend_id (friends s)"
  using reachable_well_keyed[OF assms] by (simp_all add: well_keyed_def)

subsection \<open>C1: friend suggestions\<close>

text \<open>
  Claim C1 says that \<open>getFriendSuggestions(u)\<close> leaves out every user who has a friend
  edge with \<open>u\<close> in any state. In the sample run cat (3) has a pending request to ann (1),
  and cat is the first suggestion made to ann: the method builds its exclusion set from
  \<open>getFriends\<close>, which keeps accepted edges only.
\<close>

theorem getFriendSuggestions_counterexample:
  "edge_between demo ''pending'' 1 3 \<and>
   map user_id (getFriendSuggestions demo 1) = [3, 4, 5, 6, 7]"
  by (simp add: demo_def demo_calls_def store_defs)

text \<open>
  Claim C1 as the code has it: for every store and every user id \<open>u\<close>,
  \<open>getFriendSuggestions(u)\<close> is the first five users, in insertion order of the user
  collection, whose id is not \<open>u\<close> and who are not joined to \<open>u\<close> by an accepted edge in
  either direction.
\<close>

theorem getFriendSuggestions_accepted_only:
  "getFriendSuggestions s u
     = take 5 (filter (\<lambda>x. user_id x \<noteq> u \<and> \<not> edge_between s ''accepted'' u (user_id x))
                 (map_values (users s)))"
proof -
  have "getFriendSuggestions s u
          = take 5 (filter (\<lambda>x. user_id x \<notin>
                set (map (\<lambda>f. if friend_friendId (fwu_friend f) = u
                         then friend_userId (fwu_friend f)
                         else friend_friendId (fwu_friend f)) (getFriends s u)) \<union> {u})
              (map_values (users s)))"
    by (simp add: getFriendSuggestions_def Let_def)
  then show ?thesis unfolding suggestion_excluded by simp
qed

theorem getFriendSuggestions_accepted_only_witness:
  "edge_between demo ''accepted'' 1 2 \<and>
   map user_id (take 5 (filter (\<lambda>x. user_id x \<noteq> 1 \<and>
                                    \<not> edge_between demo ''accepted'' 1 (user_id x))
                         (map_values (users demo)))) = [3, 4, 5, 6, 7] \<and>
   getFriendSuggestions demo 1
     = take 5 (filter (\<lambda>x. user_id x \<noteq> 1 \<and> \<not> edge_between demo ''accepted'' 1 (user_id x))
                 (map_values (users demo)))"
proof -
  have "edge_between demo ''accepted'' 1 2"
    by (simp add: demo_def demo_calls_def store_defs)
  moreover have "map user_id (take 5 (filter (\<lambda>x. user_id x \<noteq> 1 \<and>
                                    \<not> edge_between demo ''accepted'' 1 (user_id x))
                         (map_values (users demo)))) = [3, 4, 5, 6, 7]"
    by (simp add: demo_def demo_calls_def store_defs)
  ultimately show ?thesis
    using getFriendSuggestions_accepted_only[of demo 1] by blast
qed

subsection \<open>C2: one like per user and post\<close>

text \<open>
  Claim C2 says that \<open>createLike\<close> never leaves two likes of the same user on the same
  post. In a store where ann has liked her post once, a second \<open>createLike\<close> for the same
  pair stores a second like under a new id: the method inserts without looking.
\<close>

theorem createLike_counterexample:
  "one_like_per_pair liked_once \<and>
   map (\<lambda>l. (like_id l, like_userId l, like_postId l))
       (map_values (likes (snd (createLike liked_once \<lparr> il_userId = 1, il_postId = 1 \<rparr> 4))))
     = [(1, 1, 1), (2, 1, 1)] \<and>
   \<not> one_like_per_pair (snd (createLike liked_once \<lparr> il_userId = 1, il_postId = 1 \<rparr> 4))"
  by (simp add: liked_once_def store_defs)

text \<open>
  Claim C2 as the code has it, in every store the program can reach: \<open>createLike\<close>
  makes no check of its own. It returns a like that holds the next like id, the given
  user id and post id and the clock's timestamp; that id is unused, and the like is
  stored under it at the end of the collection, every other like staying as it was, and
  the next like id goes up by one. So when \<open>getLike\<close> already finds a like of that user
  on that post, two likes of the pair are stored afterwards; and when the store held at
  most one like per pair and \<open>getLike\<close> finds none, which is the check the caller makes
  before it calls, the store still holds at most one like per pair.
\<close>

theorem createLike_unchecked:
  assumes "reachable s"
  shows "fst (createLike s ins now)
           = \<lparr> like_id = currentLikeId s, like_userId = il_userId ins,
               like_postId = il_postId ins, like_createdAt = now \<rparr> \<and>
         map_get (likes s) (currentLikeId s) = None \<and>
         map_get (likes (snd (createLike s ins now))) (currentLikeId s)
           = Some (fst (createLike s ins now)) \<and>
         (\<forall>j. j \<noteq> currentLikeId s \<longrightarrow>
            map_get (likes (snd (createLike s ins now))) j = map_get (likes s) j) \<and>
         likes (snd (createLike s ins now))
           = likes s @ [(currentLikeId s, fst (createLike s ins now))] \<and>
         currentLikeId (snd (createLike s ins now)) = currentLikeId s + 1 \<and>
         (one_like_per_pair s \<and> getLike s (il_userId ins) (il_postId ins) = None \<longrightarrow>
            one_like_per_pair (snd (createLike s ins now))) \<and>
         (getLike s (il_userId ins) (il_postId ins) \<noteq> None \<longrightarrow>
            \<not> one_like_per_pair (snd (createLike s ins now)))"
proof -
  let ?g = "\<lambda>l. (like_userId l, like_postId l)"
  let ?l = "fst (createLike s ins now)"
  have fresh: "currentLikeId s \<notin> fst ` set (likes s)"
    using assms by (intro like_fresh reachable_like_ids_below)
  have l: "?l = \<lparr> like_id = currentLikeId s, like_userId = il_userId ins,
                   like_postId = il_postId ins, like_createdAt = now \<rparr>"
    by (simp add: createLike_def Let_def)
  have ls: "likes (snd (createLike s ins now)) = map_set (currentLikeId s) ?l (likes s)"
    by (simp add: createLike_def Let_def)
  have app: "likes (snd (createLike s ins now)) = likes s @ [(currentLikeId s, ?l)]"
    unfolding ls map_set_def using fresh by (rule update_absent_append)
  have vals: "map ?g (map_values (likes (snd (createLike s ins now))))
                = map ?g (map_values (likes s)) @ [(il_userId ins, il_postId ins)]"
    unfolding app by (simp add: map_values_def l)
  have none: "getLike s (il_userId ins) (il_postId ins) = None
                \<longleftrightarrow> (il_userId ins, il_postId ins) \<notin> set (map ?g (map_values (likes s)))"
    by (force simp: getLike_def find_None_iff)
  show ?thesis
  proof (intro conjI allI impI)
    show "?l = \<lparr> like_id = currentLikeId s, like_userId = il_userId ins,
                   like_postId = il_postId ins, like_createdAt = now \<rparr>" by (rule l)
    show "map_get (likes s) (currentLikeId s) = None"
      using fresh by (simp add: map_get_def map_of_eq_None_iff)
    show "map_get (likes (snd (createLike s ins now))) (currentLikeId s) = Some ?l"
      by (simp add: ls map_get_set)
    show "map_get (likes (snd (createLike s ins now))) j = map_get (likes s) j"
      if "j \<noteq> currentLikeId s" for j
      using that by (simp add: ls map_get_set)
    show "likes (snd (createLike s ins now)) = likes s @ [(currentLikeId s, ?l)]" by (rule app)
    show "currentLikeId (snd (createLike s ins now)) = currentLikeId s + 1"
      by (simp add: createLike_def Let_def)
    show "one_like_per_pair (snd (createLike s ins now))"
      if "one_like_per_pair s \<and> getLike s (il_userId ins) (il_postId ins) = None"
      using that unfolding one_like_per_pair_def vals none by simp
    show "\<not> one_like_per_pair (snd (createLike s ins now))"
      if "getLike s (il_userId ins) (il_postId ins) \<noteq> None"
      using that unfolding one_like_per_pair_def vals none by simp
  qed
qed

theorem createLike_unchecked_witness:
  "reachable demo \<and> one_like_per_pair demo \<and> getLike demo 3 1 = None \<and>
   getLike demo 2 1 \<noteq> None \<and> currentLikeId demo = 3 \<and>
   fst (createLike demo \<lparr> il_userId = 3, il_postId = 1 \<rparr> 50)
     = \<lparr> like_id = 3, like_userId = 3, like_postId = 1, like_createdAt = 50 \<rparr> \<and>
   map_get (likes demo) 3 = None \<and>
   map_get (likes (snd (createLike demo \<lparr> il_userId = 3, il_postId = 1 \<rparr> 50))) 3
     = Some (fst (createLike demo \<lparr> il_userId = 3, il_postId = 1 \<rparr> 50)) \<and>
   likes (snd (createLike demo \<lparr> il_userId = 3, il_postId = 1 \<rparr> 50))
     = likes demo @ [(3, fst (createLike demo \<lparr> il_userId = 3, il_postId = 1 \<rparr> 50))] \<and>
   currentLikeId (snd (createLike demo \<lparr> il_userId = 3, il_postId = 1 \<rparr> 50)) = 4 \<and>
   one_like_per_pair (snd (createLike demo \<lparr> il_userId = 3, il_postId = 1 \<rparr> 50)) \<and>
   \<not> one_like_per_pair (snd (createLike demo \<lparr> il_userId = 2, il_postId = 1 \<rparr> 50))"
proof -
  have h: "one_like_per_pair demo" "getLike demo 3 1 = None" "getLike demo 2 1 \<noteq> None"
    by (simp_all add: demo_def demo_calls_def store_defs)
  have c: "currentLikeId demo = 3"
    by (simp add: demo_def demo_calls_def store_defs)
  note new = createLike_unchecked[OF reachable_demo,
      of "\<lparr> il_userId = 3, il_postId = 1 \<rparr>" 50, unfolded c]
  note dup = createLike_unchecked[OF reachable_demo,
      of "\<lparr> il_userId = 2, il_postId = 1 \<rparr>" 50, unfolded c]
  have f: "fst (createLike demo \<lparr> il_userId = 3, il_postId = 1 \<rparr> 50)
     = \<lparr> like_id = 3, like_userId = 3, like_postId = 1, like_createdAt = 50 \<rparr>"
    using new by simp
  have n: "currentLikeId (snd (createLike demo \<lparr> il_userId = 3, il_postId = 1 \<rparr> 50)) = 4"
    using new by simp
  have u: "one_like_per_pair (snd (createLike demo \<lparr> il_userId = 3, il_postId = 1 \<rparr> 50))"
    using new h by simp
  have d: "\<not> one_like_per_pair (snd (createLike demo \<lparr> il_userId = 2, il_postId = 1 \<rparr> 50))"
    using dup h by simp
  show ?thesis
    using reachable_demo h c f n u d new by blast
qed

subsection \<open>C3: the feed\<close>




subsection \<open>C4: deleting a user\<close>

text \<open>
  Claim C4: in every store the program can reach, \<open>deleteUser(u)\<close> on a present user
  returns true, and afterwards \<open>getUser(u)\<close> finds nothing, no stored post is written by
  \<open>u\<close>, every post \<open>u\<close> had written is gone together with all its likes and comments,
  no stored like or comment is by \<open>u\<close>, and no stored friend edge has \<open>u\<close> on either
  side. On an absent user it returns false and the store is the same.
\<close>

theorem deleteUser_cascades:
  assumes "reachable s"
  shows "(getUser s u \<noteq> None \<longrightarrow>
            fst (deleteUser s u) \<and>
            getUser (snd (deleteUser s u)) u = None \<and>
            (\<forall>p \<in> set (map_values (posts (snd (deleteUser s u)))). post_userId p \<noteq> u) \<and>
            (\<forall>p \<in> set (map_values (posts s)). post_userId p = u \<longrightarrow>
                getPost (snd (deleteUser s u)) (post_id p) = None \<and>
                getLikesByPost (snd (deleteUser s u)) (post_id p) = [] \<and>
                getCommentsByPost (snd (deleteUser s u)) (post_id p) = []) \<and>
            (\<forall>l \<in> set (map_values (likes (snd (deleteUser s u)))). like_userId l \<noteq> u) \<and>
            (\<forall>c \<in> set (map_values (comments (snd (deleteUser s u)))). comment_userId c \<noteq> u) \<and>
            (\<forall>f \<in> set (map_values (friends (snd (deleteUser s u)))).
                friend_userId f \<noteq> u \<and> friend_friendId f \<noteq> u)) \<and>
         (getUser s u = None \<longrightarrow> deleteUser s u = (False, s))"
proof (intro conjI impI)
  note k = reachable_keyed[OF assms]
  assume present: "getUser s u \<noteq> None"
  show "fst (deleteUser s u)" using present by (simp add: deleteUser_fst)
  show "getUser (snd (deleteUser s u)) u = None"
    by (simp add: getUser_def deleteUser_present(1)[OF present] map_get_delete_same)
  show "\<forall>p \<in> set (map_values (posts (snd (deleteUser s u)))). post_userId p \<noteq> u"
    by (rule deleteUser_no_posts[OF present k(1)])
  show "\<forall>p \<in> set (map_values (posts s)). post_userId p = u \<longrightarrow>
          getPost (snd (deleteUser s u)) (post_id p) = None \<and>
          getLikesByPost (snd (deleteUser s u)) (post_id p) = [] \<and>
          getCommentsByPost (snd (deleteUser s u)) (post_id p) = []"
  proof (intro ballI impI conjI)
    fix p assume p: "p \<in> set (map_values (posts s))" "post_userId p = u"
    show "getPost (snd (deleteUser s u)) (post_id p) = None"
      by (rule deleteUser_posts_cascade(1)[OF present k(1,2,3) p])
    show "getLikesByPost (snd (deleteUser s u)) (post_id p) = []"
      by (rule deleteUser_posts_cascade(2)[OF present k(1,2,3) p])
    show "getCommentsByPost (snd (deleteUser s u)) (post_id p) = []"
      by (rule deleteUser_posts_cascade(3)[OF present k(1,2,3) p])
  qed
  have kl: "keyed like_id (likes (afterPosts s u))"
    using k(2) afterPosts_likes_subset keyed_subset by blast
  show "\<forall>l \<in> set (map_values (likes (snd (deleteUser s u)))). like_userId l \<noteq> u"
    unfolding deleteUser_present(3)[OF present]
    using fold_delete_values[OF kl, of "\<lambda>l. like_userId l = u"] by simp
  have kc: "keyed comment_id (comments (afterPosts s u))"
    using k(3) afterPosts_comments_subset keyed_subset by blast
  show "\<forall>c \<in> set (map_values (comments (snd (deleteUser s u)))). comment_userId c \<noteq> u"
    unfolding deleteUser_present(4)[OF present]
    using fold_delete_values[OF kc, of "\<lambda>c. comment_userId c = u"] by simp
  show "\<forall>f \<in> set (map_values (friends (snd (deleteUser s u)))).
          friend_userId f \<noteq> u \<and> friend_friendId f \<noteq> u"
    unfolding deleteUser_present(5)[OF present]
    using fold_delete_values[OF k(4), of "\<lambda>f. friend_userId f = u \<or> friend_friendId f = u"]
    by blast
next
  assume "getUser s u = None"
  then show "deleteUser s u = (False, s)" by (rule deleteUser_absent)
qed

theorem deleteUser_cascades_witness:
  "reachable demo \<and> getUser demo 2 \<noteq> None \<and> getUser demo 99 = None \<and>
   map post_id (filter (\<lambda>p. post_userId p = 2) (map_values (posts demo))) = [2, 3] \<and>
   fst (deleteUser demo 2) \<and>
   getUser (snd (deleteUser demo 2)) 2 = None \<and>
   map post_id (map_values (posts (snd (deleteUser demo 2)))) = [1] \<and>
   getPost (snd (deleteUser demo 2)) 2 = None \<and>
   getLikesByPost (snd (deleteUser demo 2)) 2 = [] \<and>
   getCommentsByPost (snd (deleteUser demo 2)) 2 = [] \<and>
   map like_id (map_values (likes (snd (deleteUser demo 2)))) = [] \<and>
   map comment_id (map_values (comments (snd (deleteUser demo 2)))) = [] \<and>
   map friend_id (map_values (friends (snd (deleteUser demo 2)))) = [2] \<and>
   deleteUser demo 99 = (False, demo)"
proof -
  have u: "getUser demo 2 \<noteq> None" "getUser demo 99 = None"
    "map post_id (filter (\<lambda>p. post_userId p = 2) (map_values (posts demo))) = [2, 3]"
    by (simp_all add: demo_def demo_calls_def store_defs)
  have e: "map post_id (map_values (posts (snd (deleteUser demo 2)))) = [1]"
    "getPost (snd (deleteUser demo 2)) 2 = None"
    "getLikesByPost (snd (deleteUser demo 2)) 2 = []"
    "getCommentsByPost (snd (deleteUser demo 2)) 2 = []"
    "map like_id (map_values (likes (snd (deleteUser demo 2)))) = []"
    "map comment_id (map_values (comments (snd (deleteUser demo 2)))) = []"
    "map friend_id (map_values (friends (snd (deleteUser demo 2)))) = [2]"
    by (simp_all add: demo_def demo_calls_def store_defs)
  show ?thesis
    using reachable_demo u e
      deleteUser_cascades[OF reachable_demo, of 2] deleteUser_cascades[OF reachable_demo, of 99]
    by blast
qed

subsection \<open>C5: the states of a friend edge\<close>

text \<open>
  Claim C5 says that an edge is only ever created pending and that accepting and
  rejecting apply to pending edges only. In the sample run \<open>createFriendRequest\<close> with
  the status \<open>accepted\<close> in its argument stores an accepted edge at once, and the
  pending edge 2, once rejected, is accepted by a later \<open>acceptFriendRequest\<close>: the store
  takes the status the caller passes and sets the new status without reading the old one.
\<close>

theorem friend_edge_counterexample:
  "friend_status (fst (createFriendRequest demo
       \<lparr> if_userId = 4, if_friendId = 5, if_status = Some ''accepted'' \<rparr> 50)) = ''accepted'' \<and>
   map_option friend_status (map_get (friends (run demo [RejectFriendRequest 2])) 2)
     = Some ''rejected'' \<and>
   map_option friend_status
     (map_get (friends (run demo [RejectFriendRequest 2, AcceptFriendRequest 2])) 2)
     = Some ''accepted''"
  by (simp add: demo_def demo_calls_def store_defs)

text \<open>
  Claim C5 as the code has it, in every store the program can reach:
  \<open>createFriendRequest\<close> stores a new edge under an id no edge has, with the status the
  caller passes and with \<open>pending\<close> when the caller passes none;
  \<open>acceptFriendRequest\<close> and \<open>rejectFriendRequest\<close> set the status of any present edge,
  whatever it was, and return the not-found signal and change nothing when the id is
  absent; and along every sequence of store operations an edge that is accepted is
  afterwards accepted or rejected for as long as it exists, never pending.
\<close>

theorem friend_edge_transitions:
  assumes "reachable s"
  shows "map_get (friends s) (currentFriendId s) = None \<and>
         map_get (friends (snd (createFriendRequest s ins now))) (currentFriendId s)
           = Some (fst (createFriendRequest s ins now)) \<and>
         friend_status (fst (createFriendRequest s ins now))
           = (case if_status ins of Some st \<Rightarrow> st | None \<Rightarrow> ''pending'') \<and>
         (\<forall>f. map_get (friends s) i = Some f \<longrightarrow>
            map_get (friends (snd (acceptFriendRequest s i))) i
              = Some (f\<lparr> friend_status := ''accepted'' \<rparr>) \<and>
            map_get (friends (snd (rejectFriendRequest s i))) i
              = Some (f\<lparr> friend_status := ''rejected'' \<rparr>)) \<and>
         (map_get (friends s) i = None \<longrightarrow>
            acceptFriendRequest s i = (None, s) \<and> rejectFriendRequest s i = (None, s)) \<and>
         (\<forall>f f'. map_get (friends s) i = Some f \<and> friend_status f = ''accepted'' \<and>
                 map_get (friends (run s cs)) i = Some f' \<longrightarrow>
                 friend_status f' = ''accepted'' \<or> friend_status f' = ''rejected'')"
proof (intro conjI allI impI)
  have b: "friend_ids_below s" using assms by (rule reachable_friend_ids_below)
  show "map_get (friends s) (currentFriendId s) = None"
    using b by (rule below_fresh)
  show "map_get (friends (snd (createFriendRequest s ins now))) (currentFriendId s)
           = Some (fst (createFriendRequest s ins now))"
    by (simp add: createFriendRequest_def Let_def map_get_set)
  show "friend_status (fst (createFriendRequest s ins now))
           = (case if_status ins of Some st \<Rightarrow> st | None \<Rightarrow> ''pending'')"
    by (simp add: createFriendRequest_def Let_def)
  show "map_get (friends (snd (acceptFriendRequest s i))) i
              = Some (f\<lparr> friend_status := ''accepted'' \<rparr>)"
    if "map_get (friends s) i = Some f" for f
    using that by (simp add: acceptFriendRequest_def Let_def map_get_set)
  show "map_get (friends (snd (rejectFriendRequest s i))) i
              = Some (f\<lparr> friend_status := ''rejected'' \<rparr>)"
    if "map_get (friends s) i = Some f" for f
    using that by (simp add: rejectFriendRequest_def Let_def map_get_set)
  show "acceptFriendRequest s i = (None, s)" if "map_get (friends s) i = None"
    using that by (simp add: acceptFriendRequest_def)
  show "rejectFriendRequest s i = (None, s)" if "map_get (friends s) i = None"
    using that by (simp add: rejectFriendRequest_def)
  show "friend_status f' = ''accepted'' \<or> friend_status f' = ''rejected''"
    if h: "map_get (friends s) i = Some f \<and> friend_status f = ''accepted'' \<and>
           map_get (friends (run s cs)) i = Some f'" for f f'
  proof -
    have "settled s i" using h b by (simp add: settled_def)
    then have "settled (run s cs) i" by (rule settled_run)
    with h show ?thesis by (simp add: settled_def)
  qed
qed

theorem friend_edge_transitions_witness:
  "reachable demo \<and>
   map_option friend_status (map_get (friends demo) 1) = Some ''accepted'' \<and>
   map_get (friends demo) 7 = None \<and>
   map_get (friends demo) (currentFriendId demo) = None \<and>
   friend_status (fst (createFriendRequest demo
       \<lparr> if_userId = 4, if_friendId = 5, if_status = None \<rparr> 50)) = ''pending'' \<and>
   map_option friend_status (map_get (friends (snd (rejectFriendRequest demo 1))) 1)
     = Some ''rejected'' \<and>
   acceptFriendRequest demo 7 = (None, demo) \<and>
   (case map_get (friends (run demo [RejectFriendRequest 1, DeleteUser 3])) 1 of
      Some f \<Rightarrow> friend_status f = ''accepted'' \<or> friend_status f = ''rejected''
    | None \<Rightarrow> True)"
proof -
  obtain f where f: "map_get (friends demo) 1 = Some f" "friend_status f = ''accepted''"
    by (simp add: demo_def demo_calls_def store_defs)
  have n: "map_get (friends demo) 7 = None"
    by (simp add: demo_def demo_calls_def store_defs)
  note t = friend_edge_transitions[OF reachable_demo,
      of "\<lparr> if_userId = 4, if_friendId = 5, if_status = None \<rparr>" 50 _
         "[RejectFriendRequest 1, DeleteUser 3]"]
  show ?thesis
    using reachable_demo f n t[of 1] t[of 7]
    by (auto split: option.splits)
qed

subsection \<open>C6: deleting a post\<close>

text \<open>
  Claim C6: in every store the program can reach, \<open>deletePost(p)\<close> on a present post
  returns true, and afterwards \<open>getPost(p)\<close> finds nothing and \<open>getLikesByPost(p)\<close> and
  \<open>getCommentsByPost(p)\<close> are empty, however many likes and comments the post had; on an
  absent post it returns false.
\<close>

theorem deletePost_cascades:
  assumes "reachable s"
  shows "(getPost s p \<noteq> None \<longrightarrow>
            fst (deletePost s p) \<and>
            getPost (snd (deletePost s p)) p = None \<and>
            getLikesByPost (snd (deletePost s p)) p = [] \<and>
            getCommentsByPost (snd (deletePost s p)) p = []) \<and>
         (getPost s p = None \<longrightarrow> \<not> fst (deletePost s p))"
proof (intro conjI impI)
  note k = reachable_keyed[OF assms]
  assume present: "getPost s p \<noteq> None"
  show "fst (deletePost s p)" using present by (simp add: deletePost_fst)
  show "getPost (snd (deletePost s p)) p = None"
    by (simp add: getPost_def deletePost_posts map_get_delete_same)
  show "getLikesByPost (snd (deletePost s p)) p = []"
    using deletePost_no_likes[OF present k(2)] by (simp add: getLikesByPost_empty)
  show "getCommentsByPost (snd (deletePost s p)) p = []"
    using deletePost_no_comments[OF present k(3)] by (simp add: getCommentsByPost_empty)
next
  assume "getPost s p = None"
  then show "\<not> fst (deletePost s p)" by (simp add: deletePost_fst)
qed

theorem deletePost_cascades_witness:
  "reachable demo \<and>
   getPost demo 1 \<noteq> None \<and> length (getLikesByPost demo 1) = 1 \<and>
   length (getCommentsByPost demo 1) = 1 \<and> getPost demo 4 = None \<and>
   fst (deletePost demo 1) \<and>
   getPost (snd (deletePost demo 1)) 1 = None \<and>
   getLikesByPost (snd (deletePost demo 1)) 1 = [] \<and>
   getCommentsByPost (snd (deletePost demo 1)) 1 = [] \<and>
   \<not> fst (deletePost demo 4)"
proof -
  have u: "getPost demo 1 \<noteq> None" "length (getLikesByPost demo 1) = 1"
    "length (getCommentsByPost demo 1) = 1" "getPost demo 4 = None"
    by (simp_all add: demo_def demo_calls_def store_defs)
  show ?thesis
    using reachable_demo u
      deletePost_cascades[OF reachable_demo, of 1] deletePost_cascades[OF reachable_demo, of 4]
    by blast
qed

subsection \<open>C7: updating a user\<close>

text \<open>
  Whatever the update holds, \<open>updateUser\<close> hands the stored last-name-change timestamp on
  unchanged, and it returns the not-found signal and the same store for an absent id.
\<close>

lemma updateUser_keeps_lastNameChange:
  "getUser s i = Some u \<Longrightarrow>
     map_option user_lastNameChange (fst (updateUser s i updates)) = Some (user_lastNameChange u)"
  by (simp add: updateUser_def Let_def)

lemma updateUser_absent: "getUser s i = None \<Longrightarrow> updateUser s i updates = (None, s)"
  by (simp add: updateUser_def)

text \<open>
  Claim C7 says that \<open>updateUser\<close> merges every field present in the partial update,
  a caller-supplied \<open>lastNameChange\<close> among them. The method copies nine named fields
  and \<open>lastNameChange\<close> is not one of them, although its own comment reads "update all
  fields that are present in updates" and the profile route passes \<open>lastNameChange\<close> to
  it. In the sample run ann has no last name change; an update that holds only
  \<open>lastNameChange = 5000\<close> returns and stores a record that still has none.
\<close>

theorem updateUser_drops_lastNameChange:
  "map_option user_lastNameChange (getUser demo 1) = Some None \<and>
   map_option user_lastNameChange
     (fst (updateUser demo 1 (noUpdates\<lparr> upd_lastNameChange := Some (Some 5000) \<rparr>)))
       = Some None \<and>
   map_option user_lastNameChange
     (getUser (snd (updateUser demo 1 (noUpdates\<lparr> upd_lastNameChange := Some (Some 5000) \<rparr>))) 1)
       = Some None"
  by (simp add: demo_def demo_calls_def store_defs)

subsection \<open>C8: looking up a friend request\<close>

text \<open>
  Claim C8 says that after \<open>createFriendRequest\<close> creates an edge from \<open>a\<close> to \<open>b\<close>,
  \<open>getFriendRequest\<close> finds that edge. In the sample run ann and bob are joined by
  edge 1; a new request from ann to bob becomes edge 3, and \<open>getFriendRequest\<close> returns
  edge 1 in both argument orders: it returns the first edge between the two users in
  insertion order.
\<close>

theorem getFriendRequest_counterexample:
  "friend_id (fst (createFriendRequest demo
       \<lparr> if_userId = 1, if_friendId = 2, if_status = None \<rparr> 50)) = 3 \<and>
   map_option friend_id (getFriendRequest (snd (createFriendRequest demo
       \<lparr> if_userId = 1, if_friendId = 2, if_status = None \<rparr> 50)) 1 2) = Some 1 \<and>
   map_option friend_id (getFriendRequest (snd (createFriendRequest demo
       \<lparr> if_userId = 1, if_friendId = 2, if_status = None \<rparr> 50)) 2 1) = Some 1"
  by (simp add: demo_def demo_calls_def store_defs)

text \<open>
  Claim C8 as the code has it: \<open>getFriendRequest(a,b)\<close> and \<open>getFriendRequest(b,a)\<close>
  return the same result in every store; after \<open>createFriendRequest\<close> creates an edge
  from \<open>a\<close> to \<open>b\<close>, \<open>getFriendRequest\<close> finds, in both argument orders, an edge that
  joins \<open>a\<close> and \<open>b\<close>: the created edge itself when no edge joined \<open>a\<close> and \<open>b\<close>
  before, and otherwise, the new id being unused as it is in every store the program can
  reach, the edge it found before the call.
\<close>

theorem getFriendRequest_either_order:
  "getFriendRequest s a b = getFriendRequest s b a \<and>
   (let r = createFriendRequest s \<lparr> if_userId = a, if_friendId = b, if_status = st \<rparr> now
    in getFriendRequest (snd r) a b = getFriendRequest (snd r) b a \<and>
       (case getFriendRequest (snd r) a b of
          None \<Rightarrow> False
        | Some e \<Rightarrow> (friend_userId e = a \<and> friend_friendId e = b) \<or>
                    (friend_userId e = b \<and> friend_friendId e = a)) \<and>
       (getFriendRequest s a b = None \<longrightarrow> getFriendRequest (snd r) a b = Some (fst r)) \<and>
       (map_get (friends s) (currentFriendId s) = None \<and> getFriendRequest s a b \<noteq> None \<longrightarrow>
          getFriendRequest (snd r) a b = getFriendRequest s a b))"
proof -
  define P where "P = (\<lambda>f::friend. (friend_userId f = a \<and> friend_friendId f = b) \<or>
                           (friend_userId f = b \<and> friend_friendId f = a))"
  define r where "r = createFriendRequest s \<lparr> if_userId = a, if_friendId = b, if_status = st \<rparr> now"
  have fr: "friends (snd r) = AList.update (currentFriendId s) (fst r) (friends s)"
    by (simp add: r_def createFriendRequest_def Let_def map_set_def)
  have Pf: "P (fst r)"
    by (simp add: r_def createFriendRequest_def Let_def P_def)
  have g: "getFriendRequest t a b = find P (map snd (friends t))" for t
    by (simp add: getFriendRequest_def P_def map_values_def)
  obtain e where e: "getFriendRequest (snd r) a b = Some e" "P e"
    using find_update_some[of P "fst r" "currentFriendId s" "friends s"] Pf
    unfolding g fr by blast
  have new: "getFriendRequest s a b = None \<Longrightarrow> getFriendRequest (snd r) a b = Some (fst r)"
    unfolding g fr
    using find_update_new[of P "friends s" "fst r" "currentFriendId s"] Pf by simp
  have old: "getFriendRequest (snd r) a b = getFriendRequest s a b"
    if h: "map_get (friends s) (currentFriendId s) = None \<and> getFriendRequest s a b \<noteq> None"
  proof -
    from h have "currentFriendId s \<notin> fst ` set (friends s)"
      by (simp add: map_get_def map_of_eq_None_iff)
    then have "friends (snd r) = friends s @ [(currentFriendId s, fst r)]"
      unfolding fr by (rule update_absent_append)
    moreover from h have "find P (map snd (friends s)) \<noteq> None" by (simp add: g)
    ultimately show ?thesis unfolding g by (simp add: find_append_found)
  qed
  have found: "case getFriendRequest (snd r) a b of
                 None \<Rightarrow> False
               | Some e \<Rightarrow> (friend_userId e = a \<and> friend_friendId e = b) \<or>
                           (friend_userId e = b \<and> friend_friendId e = a)"
    using e by (simp add: P_def)
  show ?thesis
    unfolding r_def[symmetric] Let_def
  proof (intro conjI impI)
    show "getFriendRequest s a b = getFriendRequest s b a"
      by (rule getFriendRequest_sym)
    show "getFriendRequest (snd r) a b = getFriendRequest (snd r) b a"
      by (rule getFriendRequest_sym)
    show "case getFriendRequest (snd r) a b of
            None \<Rightarrow> False
          | Some e \<Rightarrow> (friend_userId e = a \<and> friend_friendId e = b) \<or>
                      (friend_userId e = b \<and> friend_friendId e = a)"
      by (rule found)
    show "getFriendRequest (snd r) a b = Some (fst r)" if "getFriendRequest s a b = None"
      using that by (rule new)
    show "getFriendRequest (snd r) a b = getFriendRequest s a b"
      if "map_get (friends s) (currentFriendId s) = None \<and> getFriendRequest s a b \<noteq> None"
      using that by (rule old)
  qed
qed

theorem getFriendRequest_either_order_witness:
  "getFriendRequest demo 4 5 = None \<and>
   getFriendRequest (snd (createFriendRequest demo
       \<lparr> if_userId = 4, if_friendId = 5, if_status = None \<rparr> 50)) 4 5
     = Some (fst (createFriendRequest demo \<lparr> if_userId = 4, if_friendId = 5, if_status = None \<rparr> 50)) \<and>
   getFriendRequest (snd (createFriendRequest demo
       \<lparr> if_userId = 4, if_friendId = 5, if_status = None \<rparr> 50)) 5 4
     = Some (fst (createFriendRequest demo \<lparr> if_userId = 4, if_friendId = 5, if_status = None \<rparr> 50))"
proof -
  have h: "getFriendRequest demo 4 5 = None"
    by (simp add: demo_def demo_calls_def store_defs)
  note t = getFriendRequest_either_order[of demo 4 5 None 50, unfolded Let_def]
  from t h have a: "getFriendRequest (snd (createFriendRequest demo
       \<lparr> if_userId = 4, if_friendId = 5, if_status = None \<rparr> 50)) 4 5
     = Some (fst (createFriendRequest demo \<lparr> if_userId = 4, if_friendId = 5, if_status = None \<rparr> 50))"
    by blast
  from t have "getFriendRequest (snd (createFriendRequest demo
       \<lparr> if_userId = 4, if_friendId = 5, if_status = None \<rparr> 50)) 4 5
     = getFriendRequest (snd (createFriendRequest demo
       \<lparr> if_userId = 4, if_friendId = 5, if_status = None \<rparr> 50)) 5 4"
    by blast
  with a h show ?thesis by simp
qed

subsection \<open>C9: what deleting a user leaves alone\<close>

text \<open>
  Claim C9: \<open>deleteUser(u)\<close> leaves the story collection and the saved-post collection
  as they were, for every store and every \<open>u\<close>, so the stories of \<open>u\<close> and the saved
  posts of \<open>u\<close> stay stored; the six id counters are left as they were too. Only the
  user, post, like, comment and friend collections can change.
\<close>

theorem deleteUser_keeps_stories_and_saved:
  "stories (snd (deleteUser s u)) = stories s \<and>
   savedPosts (snd (deleteUser s u)) = savedPosts s \<and>
   currentUserId (snd (deleteUser s u)) = currentUserId s \<and>
   currentPostId (snd (deleteUser s u)) = currentPostId s \<and>
   currentLikeId (snd (deleteUser s u)) = currentLikeId s \<and>
   currentCommentId (snd (deleteUser s u)) = currentCommentId s \<and>
   currentFriendId (snd (deleteUser s u)) = currentFriendId s \<and>
   currentStoryId (snd (deleteUser s u)) = currentStoryId s"
  by (simp add: deleteUser_frame)

theorem deleteUser_keeps_stories_and_saved_witness:
  "getUser demo 2 \<noteq> None \<and>
   map story_userId (map_values (stories demo)) = [2] \<and>
   map_get (savedPosts demo) 1 = Some [2, 4, 1] \<and>
   stories (snd (deleteUser demo 2)) = stories demo \<and>
   savedPosts (snd (deleteUser demo 2)) = savedPosts demo \<and>
   stories (snd (deleteUser demo 1)) = stories demo \<and>
   savedPosts (snd (deleteUser demo 1)) = savedPosts demo"
proof -
  have "getUser demo 2 \<noteq> None" "map story_userId (map_values (stories demo)) = [2]"
    "map_get (savedPosts demo) 1 = Some [2, 4, 1]"
    by (simp_all add: demo_def demo_calls_def store_defs)
  then show ?thesis
    using deleteUser_keeps_stories_and_saved[of demo 2]
      deleteUser_keeps_stories_and_saved[of demo 1] by blast
qed

subsection \<open>C10: saved posts\<close>

text \<open>
  Claim C10: in every store the program can reach, \<open>getSavedPosts(u)\<close> returns one
  enriched view for each saved post id of \<open>u\<close> whose post is still stored, in the order
  the ids were saved, built on the post \<open>getPost\<close> finds under that id and joined with
  its author, its like count and its comments; a saved id whose post is gone is skipped
  without any error, and a user with no saved entry gets the empty list.
\<close>

theorem getSavedPosts_skips_deleted:
  assumes "reachable s"
  shows "map sp_post (getSavedPosts s u)
           = List.map_filter (getPost s)
               (case map_get (savedPosts s) u of Some l \<Rightarrow> l | None \<Rightarrow> []) \<and>
         map (\<lambda>v. post_id (sp_post v)) (getSavedPosts s u)
           = filter (\<lambda>i. getPost s i \<noteq> None)
               (case map_get (savedPosts s) u of Some l \<Rightarrow> l | None \<Rightarrow> []) \<and>
         (\<forall>v \<in> set (getSavedPosts s u).
            sp_saved v \<and>
            sp_author v = getUser s (post_userId (sp_post v)) \<and>
            sp_likes v = length (getLikesByPost s (post_id (sp_post v))) \<and>
            sp_comments v
              = commentsWithAuthor s (getCommentsByPost s (post_id (sp_post v)))) \<and>
         (map_get (savedPosts s) u = None \<longrightarrow> getSavedPosts s u = [])"
proof -
  define ids where "ids = (case map_get (savedPosts s) u of Some l \<Rightarrow> l | None \<Rightarrow> [])"
  have key: "getPost s i = Some p \<Longrightarrow> post_id p = i" for i p
    unfolding getPost_def by (rule keyed_get[OF reachable_keyed(1)[OF assms]])
  have 1: "map sp_post (getSavedPosts s u) = List.map_filter (getPost s) ids"
    unfolding getSavedPosts_def Let_def ids_def[symmetric]
    by (induction ids) (auto split: option.splits)
  have 2: "map post_id (List.map_filter (getPost s) ids) = filter (\<lambda>i. getPost s i \<noteq> None) ids"
    by (induction ids) (auto simp: key split: option.splits)
  have 3: "map_get (savedPosts s) u = None \<Longrightarrow> getSavedPosts s u = []"
    by (simp add: getSavedPosts_def)
  have 4: "\<forall>v \<in> set (getSavedPosts s u).
            sp_saved v \<and>
            sp_author v = getUser s (post_userId (sp_post v)) \<and>
            sp_likes v = length (getLikesByPost s (post_id (sp_post v))) \<and>
            sp_comments v
              = commentsWithAuthor s (getCommentsByPost s (post_id (sp_post v)))"
    unfolding getSavedPosts_def Let_def ids_def[symmetric]
    by (induction ids) (auto simp: key split: option.splits)
  have 5: "map (\<lambda>v. post_id (sp_post v)) (getSavedPosts s u)
          = map post_id (map sp_post (getSavedPosts s u))" by simp
  show ?thesis
  proof (intro conjI impI)
    show "map sp_post (getSavedPosts s u)
           = List.map_filter (getPost s)
               (case map_get (savedPosts s) u of Some l \<Rightarrow> l | None \<Rightarrow> [])"
      using 1 by (simp add: ids_def)
    show "map (\<lambda>v. post_id (sp_post v)) (getSavedPosts s u)
           = filter (\<lambda>i. getPost s i \<noteq> None)
               (case map_get (savedPosts s) u of Some l \<Rightarrow> l | None \<Rightarrow> [])"
      using 1 2 5 by (simp add: ids_def)
    show "\<forall>v \<in> set (getSavedPosts s u).
            sp_saved v \<and>
            sp_author v = getUser s (post_userId (sp_post v)) \<and>
            sp_likes v = length (getLikesByPost s (post_id (sp_post v))) \<and>
            sp_comments v
              = commentsWithAuthor s (getCommentsByPost s (post_id (sp_post v)))"
      by (rule 4)
    show "getSavedPosts s u = []" if "map_get (savedPosts s) u = None"
      using that by (rule 3)
  qed
qed

theorem getSavedPosts_skips_deleted_witness:
  "reachable demo \<and>
   map_get (savedPosts demo) 1 = Some [2, 4, 1] \<and> getPost demo 4 = None \<and>
   map_get (savedPosts demo) 5 = None \<and>
   map (\<lambda>v. post_id (sp_post v)) (getSavedPosts demo 1) = [2, 1] \<and>
   getSavedPosts demo 5 = []"
proof -
  have h: "map_get (savedPosts demo) 1 = Some [2, 4, 1]" "getPost demo 4 = None"
    "map_get (savedPosts demo) 5 = None" "getPost demo 2 \<noteq> None" "getPost demo 1 \<noteq> None"
    by (simp_all add: demo_def demo_calls_def store_defs)
  from getSavedPosts_skips_deleted[OF reachable_demo, of 1] h
  have a: "map (\<lambda>v. post_id (sp_post v)) (getSavedPosts demo 1) = [2, 1]" by simp
  from getSavedPosts_skips_deleted[OF reachable_demo, of 5] h
  have b: "getSavedPosts demo 5 = []" by blast
  show ?thesis using reachable_demo h a b by simp
qed

end
